theory Spec2Isabelle
  imports Main "HOL-Library.List_Lexorder" "HOL-Library.Char_ord"
begin

section \<open>Reference tables of \<^verbatim>\<open>build.js\<close>\<close>

text \<open>
  The build script keeps its dependency graph in object literals keyed by identifier
  name. An object literal is modelled as an association list in the order the literal is
  written, which is the order in which \<^verbatim>\<open>_.forOwn\<close> and \<^verbatim>\<open>_.transform\<close> enumerate it.
  \<^verbatim>\<open>hasOwnProperty.call(obj, key)\<close> is membership among the keys and \<^verbatim>\<open>obj[key]\<close>
  is \<^const>\<open>map_of\<close>.
\<close>

type_synonym depMap = "(string \<times> string list) list"

definition hasOwnProperty :: "(string \<times> 'v) list \<Rightarrow> string \<Rightarrow> bool" where
  "hasOwnProperty obj key = (map_of obj key \<noteq> None)"

text \<open>\<^verbatim>\<open>aliasToRealMap\<close> (lines 51-74).\<close>

definition aliasToRealMap :: "(string \<times> string) list" where
  "aliasToRealMap =
  [(''all'', ''every''), (''any'', ''some''), (''collect'', ''map''), (''detect'', ''find''),
   (''drop'', ''rest''), (''each'', ''forEach''), (''eachRight'', ''forEachRight''),
   (''extend'', ''assign''), (''findWhere'', ''find''), (''foldl'', ''reduce''),
   (''foldr'', ''reduceRight''), (''head'', ''first''), (''include'', ''contains''),
   (''inject'', ''reduce''), (''methods'', ''functions''), (''object'', ''zipObject''),
   (''select'', ''filter''), (''tail'', ''rest''), (''take'', ''first''),
   (''unique'', ''uniq''), (''unzip'', ''zip''), (''value'', ''wrapperValueOf'')]"

text \<open>\<^verbatim>\<open>funcDependencyMap\<close> (lines 99-267).\<close>

definition funcDependencyMap :: "depMap" where
  "funcDependencyMap =
  [(''templateSettings'', [''escape'']),
   (''defaultsIteratorOptions'', [''keys'']),
   (''eachIteratorOptions'', [''keys'']),
   (''htmlUnescapes'', [''invert'']),
   (''reEscapedHtml'', [''keys'']),
   (''reUnescapedHtml'', [''keys'']),
   (''after'', [''isFunction'']),
   (''assign'', [''createIterator'']),
   (''at'', [''baseFlatten'', ''isString'']),
   (''bind'', [''createBound'']),
   (''bindAll'', [''baseFlatten'', ''bind'', ''functions'']),
   (''bindKey'', [''createBound'']),
   (''chain'', [''lodashWrapper'']),
   (''clone'', [''baseClone'', ''baseCreateCallback'']),
   (''cloneDeep'', [''baseClone'', ''baseCreateCallback'']),
   (''compact'', []),
   (''compose'', [''isFunction'']),
   (''contains'', [''baseEach'', ''getIndexOf'', ''isString'']),
   (''countBy'', [''createAggregator'']),
   (''createCallback'', [''baseCreateCallback'', ''baseIsEqual'', ''isObject'', ''keys'']),
   (''curry'', [''createBound'']),
   (''debounce'', [''isFunction'', ''isObject'']),
   (''defaults'', [''createIterator'']),
   (''defer'', [''isFunction'']),
   (''delay'', [''isFunction'']),
   (''difference'', [''baseFlatten'', ''cacheIndexOf'', ''createCache'', ''getIndexOf'', ''releaseObject'']),
   (''escape'', [''escapeHtmlChar'', ''keys'']),
   (''every'', [''baseEach'', ''createCallback'', ''isArray'']),
   (''filter'', [''baseEach'', ''createCallback'', ''isArray'']),
   (''find'', [''baseEach'', ''createCallback'', ''isArray'']),
   (''findIndex'', [''createCallback'']),
   (''findLastIndex'', [''createCallback'']),
   (''findKey'', [''createCallback'', ''forOwn'']),
   (''findLast'', [''createCallback'', ''forEachRight'']),
   (''findLastKey'', [''createCallback'', ''forOwnRight'']),
   (''first'', [''createCallback'', ''slice'']),
   (''flatten'', [''baseFlatten'', ''map'']),
   (''forEach'', [''baseCreateCallback'', ''baseEach'', ''isArray'']),
   (''forEachRight'', [''baseCreateCallback'', ''forEach'', ''isString'', ''keys'']),
   (''forIn'', [''createIterator'']),
   (''forInRight'', [''baseCreateCallback'', ''forIn'']),
   (''forOwn'', [''createIterator'']),
   (''forOwnRight'', [''baseCreateCallback'', ''keys'']),
   (''functions'', [''forIn'', ''isFunction'']),
   (''groupBy'', [''createAggregator'']),
   (''has'', []),
   (''identity'', []),
   (''indexBy'', [''createAggregator'']),
   (''indexOf'', [''baseIndexOf'', ''sortedIndex'']),
   (''initial'', [''createCallback'', ''slice'']),
   (''intersection'', [''cacheIndexOf'', ''createCache'', ''getArray'', ''getIndexOf'', ''releaseArray'', ''releaseObject'']),
   (''invert'', [''keys'']),
   (''invoke'', [''forEach'']),
   (''isArguments'', []),
   (''isArray'', []),
   (''isBoolean'', []),
   (''isDate'', []),
   (''isElement'', []),
   (''isEmpty'', [''forOwn'', ''isArguments'', ''isFunction'']),
   (''isEqual'', [''baseCreateCallback'', ''baseIsEqual'']),
   (''isFinite'', []),
   (''isFunction'', []),
   (''isNaN'', [''isNumber'']),
   (''isNull'', []),
   (''isNumber'', []),
   (''isObject'', []),
   (''isPlainObject'', [''isArguments'', ''shimIsPlainObject'']),
   (''isRegExp'', []),
   (''isString'', []),
   (''isUndefined'', []),
   (''keys'', [''isArguments'', ''isObject'', ''shimKeys'']),
   (''last'', [''createCallback'', ''slice'']),
   (''lastIndexOf'', []),
   (''lodash'', [''isArray'', ''lodashWrapper'']),
   (''map'', [''baseEach'', ''createCallback'', ''isArray'']),
   (''max'', [''baseEach'', ''charAtCallback'', ''createCallback'', ''isArray'', ''isString'']),
   (''memoize'', [''isFunction'']),
   (''merge'', [''baseCreateCallback'', ''baseMerge'', ''getArray'', ''isObject'', ''releaseArray'']),
   (''min'', [''baseEach'', ''charAtCallback'', ''createCallback'', ''isArray'', ''isString'']),
   (''mixin'', [''forEach'', ''functions'', ''isFunction'', ''lodash'']),
   (''noConflict'', []),
   (''omit'', [''baseFlatten'', ''createCallback'', ''forIn'', ''getIndexOf'']),
   (''once'', [''isFunction'']),
   (''pairs'', [''keys'']),
   (''parseInt'', [''isString'']),
   (''partial'', [''createBound'']),
   (''partialRight'', [''createBound'']),
   (''pick'', [''baseFlatten'', ''createCallback'', ''forIn'', ''isObject'']),
   (''pluck'', [''map'']),
   (''pull'', []),
   (''random'', []),
   (''range'', []),
   (''reduce'', [''baseCreateCallback'', ''baseEach'', ''isArray'']),
   (''reduceRight'', [''baseCreateCallback'', ''forEachRight'']),
   (''reject'', [''createCallback'', ''filter'']),
   (''remove'', [''createCallback'']),
   (''rest'', [''createCallback'', ''slice'']),
   (''result'', [''isFunction'']),
   (''runInContext'', [''defaults'', ''pick'']),
   (''sample'', [''random'', ''shuffle'', ''toArray'']),
   (''shuffle'', [''forEach'', ''random'']),
   (''size'', [''keys'']),
   (''some'', [''baseEach'', ''createCallback'', ''isArray'']),
   (''sortBy'', [''compareAscending'', ''createCallback'', ''forEach'', ''getObject'', ''releaseObject'']),
   (''sortedIndex'', [''createCallback'', ''identity'']),
   (''tap'', []),
   (''template'', [''defaults'', ''escape'', ''escapeStringChar'', ''keys'', ''values'']),
   (''throttle'', [''debounce'', ''getObject'', ''isFunction'', ''isObject'', ''releaseObject'']),
   (''times'', [''baseCreateCallback'']),
   (''toArray'', [''isString'', ''slice'', ''values'']),
   (''transform'', [''baseCreateCallback'', ''baseEach'', ''createObject'', ''forOwn'', ''isArray'']),
   (''unescape'', [''keys'', ''unescapeHtmlChar'']),
   (''union'', [''baseFlatten'', ''baseUniq'']),
   (''uniq'', [''baseUniq'', ''createCallback'']),
   (''uniqueId'', []),
   (''values'', [''keys'']),
   (''where'', [''filter'']),
   (''without'', [''difference'']),
   (''wrap'', [''isFunction'']),
   (''wrapperChain'', []),
   (''wrapperToString'', []),
   (''wrapperValueOf'', []),
   (''zip'', [''max'', ''pluck'']),
   (''zipObject'', []),
   (''baseClone'', [''assign'', ''baseEach'', ''forOwn'', ''getArray'', ''isArray'', ''isObject'', ''isNode'', ''releaseArray'', ''slice'']),
   (''baseCreateCallback'', [''bind'', ''identity'', ''setBindData'']),
   (''baseEach'', [''createIterator'']),
   (''baseFlatten'', [''isArguments'', ''isArray'']),
   (''baseIndexOf'', []),
   (''baseIsEqual'', [''forIn'', ''getArray'', ''isArguments'', ''isFunction'', ''isNode'', ''releaseArray'']),
   (''baseMerge'', [''forEach'', ''forOwn'', ''isArray'', ''isPlainObject'']),
   (''baseUniq'', [''cacheIndexOf'', ''createCache'', ''getArray'', ''getIndexOf'', ''releaseArray'', ''releaseObject'']),
   (''cacheIndexOf'', [''baseIndexOf'']),
   (''cachePush'', []),
   (''charAtCallback'', []),
   (''compareAscending'', []),
   (''createAggregator'', [''createCallback'', ''forEach'']),
   (''createBound'', [''createObject'', ''isFunction'', ''isObject'', ''setBindData'']),
   (''createCache'', [''cachePush'', ''getObject'', ''releaseObject'']),
   (''createIterator'', [''baseCreateCallback'', ''getObject'', ''isArguments'', ''isArray'', ''isString'', ''iteratorTemplate'', ''releaseObject'']),
   (''createObject'', [''isObject'', ''noop'']),
   (''escapeHtmlChar'', []),
   (''escapeStringChar'', []),
   (''getArray'', []),
   (''getIndexOf'', [''baseIndexOf'', ''indexOf'']),
   (''getObject'', []),
   (''isNode'', []),
   (''iteratorTemplate'', []),
   (''lodashWrapper'', []),
   (''noop'', []),
   (''releaseArray'', []),
   (''releaseObject'', []),
   (''setBindData'', [''getObject'', ''noop'', ''releaseObject'']),
   (''shimIsPlainObject'', [''forIn'', ''isArguments'', ''isFunction'', ''isNode'']),
   (''shimKeys'', [''createIterator'']),
   (''slice'', []),
   (''unescapeHtmlChar'', []),
   (''findWhere'', [''where''])]"

text \<open>\<^verbatim>\<open>propDependencyMap\<close> (lines 270-285) and \<^verbatim>\<open>varDependencyMap\<close> (lines 288-328).\<close>

definition propDependencyMap :: "depMap" where
  "propDependencyMap =
  [(''at'', [''support'']),
   (''baseClone'', [''support'']),
   (''baseIsEqual'', [''support'']),
   (''bind'', [''support'']),
   (''createBound'', [''support'']),
   (''forEachRight'', [''support'']),
   (''isArguments'', [''support'']),
   (''isEmpty'', [''support'']),
   (''isPlainObject'', [''support'']),
   (''iteratorTemplate'', [''support'']),
   (''keys'', [''support'']),
   (''shimIsPlainObject'', [''support'']),
   (''template'', [''templateSettings'']),
   (''toArray'', [''support''])]"

definition varDependencyMap :: "depMap" where
  "varDependencyMap =
  [(''assign'', [''defaultsIteratorOptions'']),
   (''baseEach'', [''eachIteratorOptions'']),
   (''baseIsEqual'', [''objectTypes'']),
   (''baseUniq'', [''largeArraySize'']),
   (''bind'', [''reNative'']),
   (''cacheIndexOf'', [''keyPrefix'']),
   (''cachePush'', [''keyPrefix'']),
   (''createIterator'', [''indicatorObject'', ''objectTypes'']),
   (''createBound'', [''reNative'']),
   (''createObject'', [''reNative'']),
   (''debounce'', [''reNative'']),
   (''defaults'', [''defaultsIteratorOptions'']),
   (''defer'', [''objectTypes'', ''reNative'']),
   (''difference'', [''largeArraySize'']),
   (''escape'', [''reUnescapedHtml'']),
   (''escapeHtmlChar'', [''htmlEscapes'']),
   (''forIn'', [''eachIteratorOptions'', ''forOwnIteratorOptions'']),
   (''forOwn'', [''eachIteratorOptions'', ''forOwnIteratorOptions'']),
   (''forOwnIteratorOptions'', [''eachIteratorOptions'']),
   (''getArray'', [''arrayPool'']),
   (''getObject'', [''objectPool'']),
   (''htmlUnescapes'', [''htmlEscapes'']),
   (''intersection'', [''largeArraySize'']),
   (''isArray'', [''reNative'']),
   (''isObject'', [''objectTypes'']),
   (''isPlainObject'', [''reNative'']),
   (''isRegExp'', [''objectTypes'']),
   (''keys'', [''reNative'']),
   (''memoize'', [''keyPrefix'']),
   (''reEscapedHtml'', [''htmlUnescapes'']),
   (''releaseArray'', [''arrayPool'', ''maxPoolSize'']),
   (''releaseObject'', [''maxPoolSize'', ''objectPool'']),
   (''reUnescapedHtml'', [''htmlEscapes'']),
   (''setBindData'', [''reNative'']),
   (''support'', [''reNative'']),
   (''template'', [''reInterpolate'']),
   (''templateSettings'', [''reInterpolate'']),
   (''unescape'', [''reEscapedHtml'']),
   (''unescapeHtmlChar'', [''htmlUnescapes''])]"

section \<open>Alias resolution\<close>

text \<open>
  \<^verbatim>\<open>getRealName(funcName, depMap)\<close> (lines 1466-1472):
  \<^verbatim>\<open>
  return (
    !hasOwnProperty.call(depMap || funcDependencyMap, funcName) &&
    hasOwnProperty.call(aliasToRealMap, funcName) &&
    aliasToRealMap[funcName]
  ) || funcName;
  \<close>
  The optional \<^verbatim>\<open>depMap\<close> argument is an option; an omitted argument selects the
  canonical table. The trailing \<^verbatim>\<open>|| funcName\<close> also catches an empty alias target,
  the only falsy string.
\<close>

definition getRealName :: "string \<Rightarrow> depMap option \<Rightarrow> string" where
  "getRealName funcName depMap =
     (let dm = (case depMap of Some m \<Rightarrow> m | None \<Rightarrow> funcDependencyMap);
          real = (if \<not> hasOwnProperty dm funcName then map_of aliasToRealMap funcName
                  else None)
      in case real of
           Some r \<Rightarrow> (if r = [] then funcName else r)
         | None \<Rightarrow> funcName)"

text \<open>
  The behaviour that the specification words for alias resolution describe: the name is
  returned unchanged if it is not a known alias or if the alias target is not a tracked
  identifier of the dependency map, and the alias's real name is returned otherwise.
\<close>

definition getRealName_spec :: "string \<Rightarrow> depMap option \<Rightarrow> string" where
  "getRealName_spec funcName depMap =
     (let dm = (case depMap of Some m \<Rightarrow> m | None \<Rightarrow> funcDependencyMap)
      in case map_of aliasToRealMap funcName of
           None \<Rightarrow> funcName
         | Some r \<Rightarrow> (if \<not> hasOwnProperty dm r then funcName else r))"

lemma alias_targets_all:
  "\<forall>p \<in> set aliasToRealMap. map_of aliasToRealMap (snd p) = None \<and> snd p \<noteq> []"
  by code_simp

lemma alias_targets_not_aliases:
  assumes "map_of aliasToRealMap n = Some r"
  shows "map_of aliasToRealMap r = None \<and> r \<noteq> []"
proof -
  from assms have "(n, r) \<in> set aliasToRealMap" by (rule map_of_SomeD)
  with alias_targets_all show ?thesis by fastforce
qed

section \<open>Dependency closure\<close>

text \<open>
  \<^verbatim>\<open>getDependencies(funcName, depMap, isShallow, stack)\<close> (lines 1327-1360) accepts either
  one name or an array of names; \<^verbatim>\<open>_.uniq\<close> keeps the first occurrence of every element.
  The \<^verbatim>\<open>stack\<close> array is shared by all recursive calls and only ever pushed to, so the
  model returns it next to the result. \<^verbatim>\<open>getDependencies_each\<close> is the callback loop of
  \<^verbatim>\<open>_.transform(deps, ...)\<close>:
  \<^verbatim>\<open>
  var deps = _.isArray(funcName)
    ? funcName
    : (hasOwnProperty.call(depMap, funcName) && depMap[funcName]);
  if (!deps || !deps.length) { return []; }
  if (isShallow) { return deps.slice(); }
  stack || (stack = []);
  return _.uniq(_.transform(deps, function(result, otherName) {
    if (!_.contains(stack, otherName)) {
      stack.push(otherName);
      push.apply(result, getDependencies(otherName, depMap, isShallow, stack).concat(otherName));
    }
  }));
  \<close>
\<close>

datatype funcName = Name string | Names "string list"

definition uniq :: "'a list \<Rightarrow> 'a list" where
  "uniq xs = fold (\<lambda>x seen. if x \<in> set seen then seen else seen @ [x]) xs []"

definition depsOf :: "funcName \<Rightarrow> depMap \<Rightarrow> string list" where
  "depsOf funcName depMap =
     (case funcName of
        Names ns \<Rightarrow> ns
      | Name n \<Rightarrow> (case map_of depMap n of Some ds \<Rightarrow> ds | None \<Rightarrow> []))"

function getDependencies_stack ::
    "funcName \<Rightarrow> depMap \<Rightarrow> bool \<Rightarrow> string list \<Rightarrow> string list \<times> string list"
  and getDependencies_each ::
    "string list \<Rightarrow> depMap \<Rightarrow> bool \<Rightarrow> string list \<Rightarrow> string list \<Rightarrow> string list \<times> string list"
where
  "getDependencies_stack funcName depMap isShallow stack =
     (let deps = depsOf funcName depMap
      in if deps = [] then ([], stack)
         else if isShallow then (deps, stack)
         else (case getDependencies_each deps depMap isShallow [] stack of
                 (result, stack') \<Rightarrow> (uniq result, stack')))"
| "getDependencies_each [] depMap isShallow result stack = (result, stack)"
| "getDependencies_each (otherName # rest) depMap isShallow result stack =
     (if otherName \<notin> set stack then
        (case getDependencies_stack (Name otherName) depMap isShallow (stack @ [otherName]) of
           (sub, stack') \<Rightarrow>
             getDependencies_each rest depMap isShallow (result @ sub @ [otherName]) stack')
      else getDependencies_each rest depMap isShallow result stack)"
  by pat_completeness auto


definition depNames :: "depMap \<Rightarrow> string set" where
  "depNames depMap = (\<Union>p \<in> set depMap. set (snd p))"

lemma depsOf_Name_subset: "set (depsOf (Name n) depMap) \<subseteq> depNames depMap"
proof (cases "map_of depMap n")
  case None
  then show ?thesis by (simp add: depsOf_def)
next
  case (Some ds)
  then have "(n, ds) \<in> set depMap" by (rule map_of_SomeD)
  with Some show ?thesis by (force simp: depsOf_def depNames_def)
qed

lemma finite_depNames: "finite (depNames depMap)"
  by (simp add: depNames_def)

lemma getDependencies_stack_mono_dom:
  "getDependencies_stack_getDependencies_each_dom (Inl (funcName, depMap, isShallow, stack)) \<Longrightarrow>
     set stack \<subseteq> set (snd (getDependencies_stack funcName depMap isShallow stack))"
  "getDependencies_stack_getDependencies_each_dom (Inr (deps, depMap, isShallow, result, stack)) \<Longrightarrow>
     set stack \<subseteq> set (snd (getDependencies_each deps depMap isShallow result stack))"
proof (induct rule: getDependencies_stack_getDependencies_each.pinduct)
  case (1 funcName depMap isShallow stack)
  then show ?case
    by (auto simp: getDependencies_stack.psimps Let_def split: prod.splits)
next
  case (2 depMap isShallow result stack)
  then show ?case by (simp add: getDependencies_each.psimps)
next
  case (3 otherName rest depMap isShallow result stack)
  show ?case
  proof (cases "otherName \<in> set stack")
    case True
    with 3 show ?thesis by (simp add: getDependencies_each.psimps)
  next
    case False
    obtain sub stack' where eq:
      "getDependencies_stack (Name otherName) depMap isShallow (stack @ [otherName]) = (sub, stack')"
      by (cases "getDependencies_stack (Name otherName) depMap isShallow (stack @ [otherName])")
    from 3(2)[OF False] eq have a: "set (stack @ [otherName]) \<subseteq> set stack'" by simp
    from 3(3)[OF False eq[symmetric]]
    have b: "set stack' \<subseteq> set (snd (getDependencies_each rest depMap isShallow (result @ sub @ [otherName]) stack'))" .
    from a b False eq 3(1) show ?thesis
      by (auto simp: getDependencies_each.psimps)
  qed
qed

lemma getDependencies_dom_all: "All getDependencies_stack_getDependencies_each_dom"
proof (relation "inv_image (less_than <*lex*> less_than)
    (\<lambda>x. case x of
        Inl (funcName, depMap, isShallow, stack) \<Rightarrow>
          (card ((depNames depMap \<union> set (depsOf funcName depMap)) - set stack),
           Suc (length (depsOf funcName depMap)))
      | Inr (deps, depMap, isShallow, result, stack) \<Rightarrow>
          (card ((depNames depMap \<union> set deps) - set stack), length deps))", goal_cases)
  case 1
  show ?case by (intro wf_inv_image wf_lex_prod wf_less_than)
next
  case (2 funcName depMap isShallow stack x)
  then show ?case by simp
next
  case (3 otherName rest depMap isShallow result stack)
  have "(depNames depMap \<union> set (depsOf (Name otherName) depMap)) - set (stack @ [otherName])
        \<subset> (depNames depMap \<union> set (otherName # rest)) - set stack"
    using 3 depsOf_Name_subset[of otherName depMap] by auto
  then have "card ((depNames depMap \<union> set (depsOf (Name otherName) depMap)) - set (stack @ [otherName]))
        < card ((depNames depMap \<union> set (otherName # rest)) - set stack)"
    by (intro psubset_card_mono) (auto simp: finite_depNames)
  then show ?case by simp
next
  case (4 otherName rest depMap isShallow result stack x y)
  from getDependencies_stack_mono_dom(1)[OF 4(3)] 4(2)
  have "set (stack @ [otherName]) \<subseteq> set y"
    by (metis snd_conv)
  then have "(depNames depMap \<union> set rest) - set y \<subseteq> (depNames depMap \<union> set (otherName # rest)) - set stack"
    by auto
  then have "card ((depNames depMap \<union> set rest) - set y) \<le> card ((depNames depMap \<union> set (otherName # rest)) - set stack)"
    by (intro card_mono) (auto simp: finite_depNames)
  then show ?case by auto
next
  case (5 otherName rest depMap isShallow result stack)
  then have "(depNames depMap \<union> set rest) - set stack \<subseteq> (depNames depMap \<union> set (otherName # rest)) - set stack"
    by auto
  then have "card ((depNames depMap \<union> set rest) - set stack) \<le> card ((depNames depMap \<union> set (otherName # rest)) - set stack)"
    by (intro card_mono) (auto simp: finite_depNames)
  then show ?case by auto
qed

termination getDependencies_stack
  by (rule getDependencies_dom_all)

declare getDependencies_stack.simps [simp del]

definition getDependencies :: "funcName \<Rightarrow> depMap \<Rightarrow> bool \<Rightarrow> string list" where
  "getDependencies funcName depMap isShallow = fst (getDependencies_stack funcName depMap isShallow [])"



definition edges :: "depMap \<Rightarrow> (string \<times> string) set" where
  "edges depMap = {(a, b). b \<in> set (depsOf (Name a) depMap)}"

definition closedExcept :: "depMap \<Rightarrow> string set \<Rightarrow> string set \<Rightarrow> bool" where
  "closedExcept depMap P S = (\<forall>x \<in> S - P. set (depsOf (Name x) depMap) \<subseteq> S)"

lemma set_uniq [simp]: "set (uniq xs) = set xs"
proof -
  have "set (fold (\<lambda>x seen. if x \<in> set seen then seen else seen @ [x]) xs acc) = set xs \<union> set acc" for acc
    by (induction xs arbitrary: acc) auto
  then show ?thesis by (simp add: uniq_def)
qed

lemma closedExcept_push:
  "closedExcept depMap P (set stack) \<Longrightarrow> closedExcept depMap (insert x P) (set (stack @ [x]))"
  by (auto simp: closedExcept_def)

lemma closedExcept_pop:
  "closedExcept depMap (insert x P) S \<Longrightarrow> set (depsOf (Name x) depMap) \<subseteq> S \<Longrightarrow> closedExcept depMap P S"
  by (auto simp: closedExcept_def)

lemma getDependencies_stack_invariant:
  "\<not> isShallow \<Longrightarrow> closedExcept depMap P (set stack) \<Longrightarrow>
   getDependencies_stack funcName depMap isShallow stack = (r, stack') \<Longrightarrow>
     closedExcept depMap P (set stack') \<and> set (depsOf funcName depMap) \<subseteq> set stack'
     \<and> set stack \<subseteq> set stack' \<and> set r = set stack' - set stack"
  "\<not> isShallow \<Longrightarrow> closedExcept depMap P (set stack) \<Longrightarrow>
   getDependencies_each deps depMap isShallow result stack = (r, stack') \<Longrightarrow>
     closedExcept depMap P (set stack') \<and> set deps \<subseteq> set stack'
     \<and> set stack \<subseteq> set stack' \<and> set r = set result \<union> (set stack' - set stack)"
proof (induct funcName depMap isShallow stack and deps depMap isShallow result stack
       arbitrary: P r stack' and P r stack'
       rule: getDependencies_stack_getDependencies_each.induct)
  case (1 funcName depMap isShallow stack)
  show ?case
  proof (cases "depsOf funcName depMap = []")
    case True
    with "1.prems"(3) have "r = []" "stack' = stack"
      by (simp_all add: getDependencies_stack.simps)
    with True "1.prems"(2) show ?thesis by simp
  next
    case False
    obtain r1 stack1 where eq:
      "getDependencies_each (depsOf funcName depMap) depMap isShallow [] stack = (r1, stack1)"
      by (cases "getDependencies_each (depsOf funcName depMap) depMap isShallow [] stack")
    from "1.hyps"[OF refl False "1.prems"(1) "1.prems"(1) "1.prems"(2) eq]
    have a: "closedExcept depMap P (set stack1)" "set (depsOf funcName depMap) \<subseteq> set stack1"
      "set stack \<subseteq> set stack1" "set r1 = set stack1 - set stack"
      by simp_all
    have "getDependencies_stack funcName depMap isShallow stack = (uniq r1, stack1)"
      using False "1.prems"(1) eq by (simp add: getDependencies_stack.simps)
    with "1.prems"(3) have "r = uniq r1" "stack' = stack1" by simp_all
    with a show ?thesis by simp
  qed
next
  case (2 depMap isShallow result stack)
  from "2.prems"(3) have "r = result" "stack' = stack" by simp_all
  with "2.prems"(2) show ?case by simp
next
  case (3 otherName rest depMap isShallow result stack)
  show ?case
  proof (cases "otherName \<in> set stack")
    case True
    with "3.prems"(3) have "getDependencies_each rest depMap isShallow result stack = (r, stack')"
      by simp
    from "3.hyps"(3)[OF _ "3.prems"(1) "3.prems"(2) this] True
    have "closedExcept depMap P (set stack')" "set rest \<subseteq> set stack'"
      "set stack \<subseteq> set stack'" "set r = set result \<union> (set stack' - set stack)"
      by simp_all
    with True show ?thesis by auto
  next
    case False
    obtain sub stack1 where eq:
      "getDependencies_stack (Name otherName) depMap isShallow (stack @ [otherName]) = (sub, stack1)"
      by (cases "getDependencies_stack (Name otherName) depMap isShallow (stack @ [otherName])")
    from "3.hyps"(1)[OF False "3.prems"(1) closedExcept_push[OF "3.prems"(2), of otherName] eq]
    have a: "closedExcept depMap (insert otherName P) (set stack1)"
      "set (depsOf (Name otherName) depMap) \<subseteq> set stack1"
      "set (stack @ [otherName]) \<subseteq> set stack1"
      "set sub = set stack1 - set (stack @ [otherName])"
      by simp_all
    from closedExcept_pop[OF a(1) a(2)] have cl1: "closedExcept depMap P (set stack1)" .
    from "3.prems"(3) False eq
    have eq2: "getDependencies_each rest depMap isShallow (result @ sub @ [otherName]) stack1 = (r, stack')"
      by simp
    from "3.hyps"(2)[OF False eq[symmetric] "3.prems"(1) cl1 eq2]
    have b: "closedExcept depMap P (set stack')" "set rest \<subseteq> set stack'"
      "set stack1 \<subseteq> set stack'" "set r = set (result @ sub @ [otherName]) \<union> (set stack' - set stack1)"
      by simp_all
    from a(3,4) b(3,4) False have "set r = set result \<union> (set stack' - set stack)"
      by auto
    with a(3) b(1,2,3) show ?thesis by auto
  qed
qed


lemma edges_iff: "(a, b) \<in> edges depMap \<longleftrightarrow> b \<in> set (depsOf (Name a) depMap)"
  by (simp add: edges_def)

lemma getDependencies_stack_reachable:
  "\<not> isShallow \<Longrightarrow> getDependencies_stack funcName depMap isShallow stack = (r, stack') \<Longrightarrow>
     set stack' \<subseteq> set stack \<union> (edges depMap)\<^sup>* `` set (depsOf funcName depMap)"
  "\<not> isShallow \<Longrightarrow> getDependencies_each deps depMap isShallow result stack = (r, stack') \<Longrightarrow>
     set stack' \<subseteq> set stack \<union> (edges depMap)\<^sup>* `` set deps"
proof (induct funcName depMap isShallow stack and deps depMap isShallow result stack
       arbitrary: r stack' and r stack'
       rule: getDependencies_stack_getDependencies_each.induct)
  case (1 funcName depMap isShallow stack)
  show ?case
  proof (cases "depsOf funcName depMap = []")
    case True
    with "1.prems"(2) have "stack' = stack"
      by (simp add: getDependencies_stack.simps)
    then show ?thesis by simp
  next
    case False
    obtain r1 stack1 where eq:
      "getDependencies_each (depsOf funcName depMap) depMap isShallow [] stack = (r1, stack1)"
      by (cases "getDependencies_each (depsOf funcName depMap) depMap isShallow [] stack")
    have "getDependencies_stack funcName depMap isShallow stack = (uniq r1, stack1)"
      using False "1.prems"(1) eq by (simp add: getDependencies_stack.simps)
    with "1.prems"(2) have "stack' = stack1" by simp
    with "1.hyps"[OF refl False "1.prems"(1) "1.prems"(1) eq] show ?thesis by simp
  qed
next
  case (2 depMap isShallow result stack)
  then show ?case by simp
next
  case (3 otherName rest depMap isShallow result stack)
  show ?case
  proof (cases "otherName \<in> set stack")
    case True
    with "3.prems"(2) have "getDependencies_each rest depMap isShallow result stack = (r, stack')"
      by simp
    from "3.hyps"(3)[OF _ "3.prems"(1) this] True
    have "set stack' \<subseteq> set stack \<union> (edges depMap)\<^sup>* `` set rest" by simp
    then show ?thesis by auto
  next
    case False
    obtain sub stack1 where eq:
      "getDependencies_stack (Name otherName) depMap isShallow (stack @ [otherName]) = (sub, stack1)"
      by (cases "getDependencies_stack (Name otherName) depMap isShallow (stack @ [otherName])")
    from "3.hyps"(1)[OF False "3.prems"(1) eq]
    have a: "set stack1 \<subseteq> set (stack @ [otherName]) \<union> (edges depMap)\<^sup>* `` set (depsOf (Name otherName) depMap)" .
    have step: "(edges depMap)\<^sup>* `` set (depsOf (Name otherName) depMap) \<subseteq> (edges depMap)\<^sup>* `` {otherName}"
    proof
      fix y assume "y \<in> (edges depMap)\<^sup>* `` set (depsOf (Name otherName) depMap)"
      then obtain d where d: "d \<in> set (depsOf (Name otherName) depMap)" "(d, y) \<in> (edges depMap)\<^sup>*"
        by auto
      from d(1) have "(otherName, d) \<in> edges depMap" by (simp add: edges_iff)
      from this d(2) have "(otherName, y) \<in> (edges depMap)\<^sup>*"
        by (rule converse_rtrancl_into_rtrancl)
      then show "y \<in> (edges depMap)\<^sup>* `` {otherName}" by simp
    qed
    from "3.prems"(2) False eq
    have eq2: "getDependencies_each rest depMap isShallow (result @ sub @ [otherName]) stack1 = (r, stack')"
      by simp
    from "3.hyps"(2)[OF False eq[symmetric] "3.prems"(1) eq2]
    have b: "set stack' \<subseteq> set stack1 \<union> (edges depMap)\<^sup>* `` set rest" .
    have "set stack' \<subseteq> set stack \<union> ({otherName} \<union> (edges depMap)\<^sup>* `` {otherName}) \<union> (edges depMap)\<^sup>* `` set rest"
      using a b step by auto
    moreover have "{otherName} \<union> (edges depMap)\<^sup>* `` {otherName} \<subseteq> (edges depMap)\<^sup>* `` set (otherName # rest)"
      by auto
    moreover have "(edges depMap)\<^sup>* `` set rest \<subseteq> (edges depMap)\<^sup>* `` set (otherName # rest)"
      by auto
    ultimately show ?thesis by blast
  qed
qed

lemma closed_rtrancl_subset:
  assumes cl: "closedExcept depMap {} S" and sub: "A \<subseteq> S"
  shows "(edges depMap)\<^sup>* `` A \<subseteq> S"
proof
  fix y assume "y \<in> (edges depMap)\<^sup>* `` A"
  then obtain x where x: "x \<in> A" "(x, y) \<in> (edges depMap)\<^sup>*" by auto
  from x(2) have "x \<in> S \<Longrightarrow> y \<in> S"
  proof (induction rule: rtrancl_induct)
    case base
    then show ?case .
  next
    case (step y z)
    then have "y \<in> S" by simp
    with cl have "set (depsOf (Name y) depMap) \<subseteq> S" by (simp add: closedExcept_def)
    with step(2) show ?case by (auto simp: edges_iff)
  qed
  with x(1) sub show "y \<in> S" by auto
qed

lemma closedExcept_empty: "closedExcept depMap P {}"
  by (simp add: closedExcept_def)

lemma getDependencies_stack_empty:
  assumes "getDependencies_stack funcName depMap False [] = (r, stack')"
  shows "set r = set stack'" "closedExcept depMap {} (set r)" "set (depsOf funcName depMap) \<subseteq> set r"
    "set r = (edges depMap)\<^sup>* `` set (depsOf funcName depMap)"
proof -
  have cl0: "closedExcept depMap {} (set [])" by (simp add: closedExcept_def)
  from getDependencies_stack_invariant(1)[OF _ cl0 assms]
  have a: "closedExcept depMap {} (set stack')" "set (depsOf funcName depMap) \<subseteq> set stack'"
    "set r = set stack'" by simp_all
  from a show "set r = set stack'" "closedExcept depMap {} (set r)" "set (depsOf funcName depMap) \<subseteq> set r"
    by simp_all
  from getDependencies_stack_reachable(1)[OF _ assms]
  have "set stack' \<subseteq> (edges depMap)\<^sup>* `` set (depsOf funcName depMap)" by simp
  moreover from closed_rtrancl_subset[OF a(1) a(2)]
  have "(edges depMap)\<^sup>* `` set (depsOf funcName depMap) \<subseteq> set stack'" .
  ultimately show "set r = (edges depMap)\<^sup>* `` set (depsOf funcName depMap)"
    using a(3) by auto
qed

lemma set_getDependencies_Names:
  "set (getDependencies (Names ns) depMap False) = (edges depMap)\<^sup>* `` set ns"
proof -
  obtain r stack' where eq: "getDependencies_stack (Names ns) depMap False [] = (r, stack')"
    by (cases "getDependencies_stack (Names ns) depMap False []")
  from getDependencies_stack_empty(4)[OF eq] eq show ?thesis
    by (simp add: getDependencies_def depsOf_def)
qed

lemma set_getDependencies_Name:
  "set (getDependencies (Name n) depMap False) = (edges depMap)\<^sup>+ `` {n}"
proof -
  obtain r stack' where eq: "getDependencies_stack (Name n) depMap False [] = (r, stack')"
    by (cases "getDependencies_stack (Name n) depMap False []")
  have "(edges depMap)\<^sup>* `` set (depsOf (Name n) depMap) = (edges depMap)\<^sup>+ `` {n}"
  proof (intro set_eqI iffI)
    fix y assume "y \<in> (edges depMap)\<^sup>* `` set (depsOf (Name n) depMap)"
    then obtain d where "(n, d) \<in> edges depMap" "(d, y) \<in> (edges depMap)\<^sup>*"
      by (auto simp: edges_iff)
    then have "(n, y) \<in> (edges depMap)\<^sup>+" by (rule rtrancl_into_trancl2)
    then show "y \<in> (edges depMap)\<^sup>+ `` {n}" by simp
  next
    fix y assume "y \<in> (edges depMap)\<^sup>+ `` {n}"
    then have "(n, y) \<in> (edges depMap)\<^sup>+" by simp
    then obtain d where "(n, d) \<in> edges depMap" "(d, y) \<in> (edges depMap)\<^sup>*"
      by (auto dest: tranclD)
    then show "y \<in> (edges depMap)\<^sup>* `` set (depsOf (Name n) depMap)"
      by (auto simp: edges_iff)
  qed
  with getDependencies_stack_empty(4)[OF eq] eq show ?thesis
    by (simp add: getDependencies_def)
qed

lemma closed_getDependencies:
  "closedExcept depMap {} (set (getDependencies funcName depMap False))"
proof -
  obtain r stack' where eq: "getDependencies_stack funcName depMap False [] = (r, stack')"
    by (cases "getDependencies_stack funcName depMap False []")
  from getDependencies_stack_empty(2)[OF eq] eq show ?thesis
    by (simp add: getDependencies_def)
qed


section \<open>Dependants\<close>

text \<open>
  \<^verbatim>\<open>getDependants(funcName, depMap, stack)\<close> (lines 1298-1313) walks the whole map for every
  queried name and recurses into each entry that lists one of the names, again with one
  shared \<^verbatim>\<open>stack\<close>. \<^verbatim>\<open>getDependants_each\<close> is the callback loop of
  \<^verbatim>\<open>_.transform(depMap, ...)\<close> over the entries still to visit:
  \<^verbatim>\<open>
  var funcNames = _.isArray(funcName) ? funcName : [funcName];
  depMap || (depMap = funcDependencyMap);
  stack || (stack = []);
  return _.uniq(_.transform(depMap, function(result, deps, otherName) {
    if (!_.contains(stack, otherName) && _.some(funcNames, function(funcName) {
          return _.contains(deps, funcName);
        })) {
      stack.push(otherName);
      result.push(otherName);
      push.apply(result, getDependants(otherName, depMap, stack));
    }
  }, []));
  \<close>
\<close>

function getDependants_stack ::
    "funcName \<Rightarrow> depMap \<Rightarrow> string list \<Rightarrow> string list \<times> string list"
  and getDependants_each ::
    "string list \<Rightarrow> depMap \<Rightarrow> depMap \<Rightarrow> string list \<Rightarrow> string list \<Rightarrow> string list \<times> string list"
where
  "getDependants_stack funcName depMap stack =
     (let funcNames = (case funcName of Names ns \<Rightarrow> ns | Name n \<Rightarrow> [n])
      in case getDependants_each funcNames depMap depMap [] stack of
           (result, stack') \<Rightarrow> (uniq result, stack'))"
| "getDependants_each funcNames [] depMap result stack = (result, stack)"
| "getDependants_each funcNames ((otherName, deps) # entries) depMap result stack =
     (if otherName \<notin> set stack \<and> (\<exists>funcName \<in> set funcNames. funcName \<in> set deps) then
        (case getDependants_stack (Name otherName) depMap (stack @ [otherName]) of
           (sub, stack') \<Rightarrow>
             getDependants_each funcNames entries depMap (result @ [otherName] @ sub) stack')
      else getDependants_each funcNames entries depMap result stack)"
  by pat_completeness auto

lemma getDependants_stack_mono_dom:
  "getDependants_stack_getDependants_each_dom (Inl (funcName, depMap, stack)) \<Longrightarrow>
     set stack \<subseteq> set (snd (getDependants_stack funcName depMap stack))"
  "getDependants_stack_getDependants_each_dom (Inr (funcNames, entries, depMap, result, stack)) \<Longrightarrow>
     set stack \<subseteq> set (snd (getDependants_each funcNames entries depMap result stack))"
proof (induct rule: getDependants_stack_getDependants_each.pinduct)
  case (1 funcName depMap stack)
  obtain r s where eq: "getDependants_each (case funcName of Names ns \<Rightarrow> ns | Name n \<Rightarrow> [n]) depMap depMap [] stack = (r, s)"
    by (cases "getDependants_each (case funcName of Names ns \<Rightarrow> ns | Name n \<Rightarrow> [n]) depMap depMap [] stack")
  with 1(2)[OF refl] have "set stack \<subseteq> set s" by simp
  with eq 1(1) show ?case
    by (simp add: getDependants_stack.psimps)
next
  case (2 funcNames depMap result stack)
  then show ?case by (simp add: getDependants_each.psimps)
next
  case (3 funcNames otherName deps entries depMap result stack)
  let ?c = "otherName \<notin> set stack \<and> (\<exists>funcName \<in> set funcNames. funcName \<in> set deps)"
  have unf: "getDependants_each funcNames ((otherName, deps) # entries) depMap result stack =
     (if ?c then
        (case getDependants_stack (Name otherName) depMap (stack @ [otherName]) of
           (sub, stack') \<Rightarrow>
             getDependants_each funcNames entries depMap (result @ [otherName] @ sub) stack')
      else getDependants_each funcNames entries depMap result stack)"
    using 3(1) by (rule getDependants_each.psimps)
  show ?case
  proof (cases ?c)
    case False
    from 3(4)[OF False]
    have "set stack \<subseteq> set (snd (getDependants_each funcNames entries depMap result stack))" .
    moreover from False
    have "getDependants_each funcNames ((otherName, deps) # entries) depMap result stack
          = getDependants_each funcNames entries depMap result stack"
      unfolding unf by (rule if_not_P)
    ultimately show ?thesis by simp
  next
    case True
    obtain sub stack' where eq:
      "getDependants_stack (Name otherName) depMap (stack @ [otherName]) = (sub, stack')"
      by (cases "getDependants_stack (Name otherName) depMap (stack @ [otherName])")
    from 3(2)[OF True] eq have a: "set (stack @ [otherName]) \<subseteq> set stack'" by simp
    from 3(3)[OF True eq[symmetric]]
    have b: "set stack' \<subseteq> set (snd (getDependants_each funcNames entries depMap (result @ [otherName] @ sub) stack'))" .
    from True
    have "getDependants_each funcNames ((otherName, deps) # entries) depMap result stack
          = (case getDependants_stack (Name otherName) depMap (stack @ [otherName]) of
           (sub, stack') \<Rightarrow>
             getDependants_each funcNames entries depMap (result @ [otherName] @ sub) stack')"
      unfolding unf by (rule if_P)
    with eq have "getDependants_each funcNames ((otherName, deps) # entries) depMap result stack
          = getDependants_each funcNames entries depMap (result @ [otherName] @ sub) stack'"
      by simp
    with a b show ?thesis by auto
  qed
qed

lemma getDependants_dom_all: "All getDependants_stack_getDependants_each_dom"
proof (relation "inv_image (less_than <*lex*> less_than)
    (\<lambda>x. case x of
        Inl (funcName, depMap, stack) \<Rightarrow>
          (card (fst ` set depMap - set stack), Suc (length depMap))
      | Inr (funcNames, entries, depMap, result, stack) \<Rightarrow>
          (card ((fst ` set depMap \<union> fst ` set entries) - set stack), length entries))", goal_cases)
  case 1
  show ?case by (intro wf_inv_image wf_lex_prod wf_less_than)
next
  case (2 funcName depMap stack x)
  then show ?case by simp
next
  case (3 funcNames otherName deps entries depMap result stack)
  then have "otherName \<notin> set stack" by simp
  then have "fst ` set depMap - set (stack @ [otherName])
        \<subset> (fst ` set depMap \<union> fst ` set ((otherName, deps) # entries)) - set stack"
    by auto
  then have "card (fst ` set depMap - set (stack @ [otherName]))
        < card ((fst ` set depMap \<union> fst ` set ((otherName, deps) # entries)) - set stack)"
    by (intro psubset_card_mono) auto
  then show ?case by simp
next
  case (4 funcNames otherName deps entries depMap result stack x y)
  from getDependants_stack_mono_dom(1)[OF 4(3)] 4(2)
  have "set (stack @ [otherName]) \<subseteq> set y"
    by (metis snd_conv)
  then have "(fst ` set depMap \<union> fst ` set entries) - set y
      \<subseteq> (fst ` set depMap \<union> fst ` set ((otherName, deps) # entries)) - set stack"
    by auto
  then have "card ((fst ` set depMap \<union> fst ` set entries) - set y)
      \<le> card ((fst ` set depMap \<union> fst ` set ((otherName, deps) # entries)) - set stack)"
    by (intro card_mono) auto
  then show ?case by auto
next
  case (5 funcNames otherName deps entries depMap result stack)
  have "(fst ` set depMap \<union> fst ` set entries) - set stack
      \<subseteq> (fst ` set depMap \<union> fst ` set ((otherName, deps) # entries)) - set stack"
    by auto
  then have "card ((fst ` set depMap \<union> fst ` set entries) - set stack)
      \<le> card ((fst ` set depMap \<union> fst ` set ((otherName, deps) # entries)) - set stack)"
    by (intro card_mono) auto
  then show ?case by auto
qed

termination getDependants_stack
  by (rule getDependants_dom_all)

declare getDependants_stack.simps [simp del]

definition getDependants :: "funcName \<Rightarrow> depMap \<Rightarrow> string list" where
  "getDependants funcName depMap = fst (getDependants_stack funcName depMap [])"

definition entryEdges :: "depMap \<Rightarrow> (string \<times> string) set" where
  "entryEdges depMap = {(a, b). \<exists>deps. (a, deps) \<in> set depMap \<and> b \<in> set deps}"

definition dependantsIn :: "depMap \<Rightarrow> string set \<Rightarrow> string set" where
  "dependantsIn depMap A = {a. \<exists>b \<in> A. (a, b) \<in> entryEdges depMap}"

definition closedRevExcept :: "depMap \<Rightarrow> string set \<Rightarrow> string set \<Rightarrow> bool" where
  "closedRevExcept depMap P S = (dependantsIn depMap (S - P) \<subseteq> S)"

lemma edges_subset_entryEdges: "edges depMap \<subseteq> entryEdges depMap"
proof
  fix p assume "p \<in> edges depMap"
  then obtain a b where p: "p = (a, b)" and b: "b \<in> set (depsOf (Name a) depMap)"
    by (auto simp: edges_def)
  from b obtain ds where "map_of depMap a = Some ds" "b \<in> set ds"
    by (cases "map_of depMap a") (auto simp: depsOf_def)
  then have "(a, ds) \<in> set depMap" "b \<in> set ds" by (auto dest: map_of_SomeD)
  with p show "p \<in> entryEdges depMap" by (auto simp: entryEdges_def)
qed

lemma closedRevExcept_push:
  "closedRevExcept depMap P (set stack) \<Longrightarrow> closedRevExcept depMap (insert x P) (set (stack @ [x]))"
  by (auto simp: closedRevExcept_def dependantsIn_def)

lemma closedRevExcept_pop:
  "closedRevExcept depMap (insert x P) S \<Longrightarrow> dependantsIn depMap {x} \<subseteq> S \<Longrightarrow> closedRevExcept depMap P S"
  by (auto simp: closedRevExcept_def dependantsIn_def)

lemma getDependants_stack_invariant:
  "closedRevExcept depMap P (set stack) \<Longrightarrow>
   getDependants_stack funcName depMap stack = (r, stack') \<Longrightarrow>
     closedRevExcept depMap P (set stack')
     \<and> dependantsIn depMap (set (case funcName of Names ns \<Rightarrow> ns | Name n \<Rightarrow> [n])) \<subseteq> set stack'
     \<and> set stack \<subseteq> set stack' \<and> set r = set stack' - set stack"
  "closedRevExcept depMap P (set stack) \<Longrightarrow>
   getDependants_each funcNames entries depMap result stack = (r, stack') \<Longrightarrow>
     closedRevExcept depMap P (set stack')
     \<and> dependantsIn entries (set funcNames) \<subseteq> set stack'
     \<and> set stack \<subseteq> set stack' \<and> set r = set result \<union> (set stack' - set stack)"
proof (induct funcName depMap stack and funcNames entries depMap result stack
       arbitrary: P r stack' and P r stack'
       rule: getDependants_stack_getDependants_each.induct)
  case (1 funcName depMap stack)
  let ?ns = "case funcName of Names ns \<Rightarrow> ns | Name n \<Rightarrow> [n]"
  obtain r1 stack1 where eq: "getDependants_each ?ns depMap depMap [] stack = (r1, stack1)"
    by (cases "getDependants_each ?ns depMap depMap [] stack")
  from "1.hyps"[OF refl "1.prems"(1) eq]
  have a: "closedRevExcept depMap P (set stack1)" "dependantsIn depMap (set ?ns) \<subseteq> set stack1"
    "set stack \<subseteq> set stack1" "set r1 = set stack1 - set stack"
    by simp_all
  have "getDependants_stack funcName depMap stack = (uniq r1, stack1)"
    using eq by (simp add: getDependants_stack.simps)
  with "1.prems"(2) have "r = uniq r1" "stack' = stack1" by simp_all
  with a show ?case by simp
next
  case (2 funcNames depMap result stack)
  from "2.prems"(2) have "r = result" "stack' = stack" by simp_all
  with "2.prems"(1) show ?case by (simp add: dependantsIn_def entryEdges_def)
next
  case (3 funcNames otherName deps entries depMap result stack)
  let ?c = "otherName \<notin> set stack \<and> (\<exists>funcName \<in> set funcNames. funcName \<in> set deps)"
  have split: "dependantsIn ((otherName, deps) # entries) (set funcNames)
      = (if \<exists>funcName \<in> set funcNames. funcName \<in> set deps then {otherName} else {})
        \<union> dependantsIn entries (set funcNames)"
    by (auto simp: dependantsIn_def entryEdges_def)
  show ?case
  proof (cases ?c)
    case False
    with "3.prems"(2) have "getDependants_each funcNames entries depMap result stack = (r, stack')"
      by auto
    from "3.hyps"(3)[OF False "3.prems"(1) this]
    have a: "closedRevExcept depMap P (set stack')" "dependantsIn entries (set funcNames) \<subseteq> set stack'"
      "set stack \<subseteq> set stack'" "set r = set result \<union> (set stack' - set stack)"
      by simp_all
    from False a(3) have "(if \<exists>funcName \<in> set funcNames. funcName \<in> set deps then {otherName} else {}) \<subseteq> set stack'"
      by auto
    with a split show ?thesis by simp
  next
    case True
    obtain sub stack1 where eq:
      "getDependants_stack (Name otherName) depMap (stack @ [otherName]) = (sub, stack1)"
      by (cases "getDependants_stack (Name otherName) depMap (stack @ [otherName])")
    from "3.hyps"(1)[OF True closedRevExcept_push[OF "3.prems"(1), of otherName] eq]
    have a: "closedRevExcept depMap (insert otherName P) (set stack1)"
      "dependantsIn depMap {otherName} \<subseteq> set stack1"
      "set (stack @ [otherName]) \<subseteq> set stack1"
      "set sub = set stack1 - set (stack @ [otherName])"
      by simp_all
    from closedRevExcept_pop[OF a(1) a(2)] have cl1: "closedRevExcept depMap P (set stack1)" .
    from "3.prems"(2) True eq
    have eq2: "getDependants_each funcNames entries depMap (result @ [otherName] @ sub) stack1 = (r, stack')"
      by simp
    from "3.hyps"(2)[OF True eq[symmetric] cl1 eq2]
    have b: "closedRevExcept depMap P (set stack')" "dependantsIn entries (set funcNames) \<subseteq> set stack'"
      "set stack1 \<subseteq> set stack'" "set r = set (result @ [otherName] @ sub) \<union> (set stack' - set stack1)"
      by simp_all
    from a(3,4) b(3,4) True have r: "set r = set result \<union> (set stack' - set stack)"
      by auto
    from a(3) b(3) have "otherName \<in> set stack'" by auto
    with split b(2) have "dependantsIn ((otherName, deps) # entries) (set funcNames) \<subseteq> set stack'"
      by auto
    with a(3) b(1,3) r show ?thesis by auto
  qed
qed

lemma getDependants_complete:
  assumes x: "x \<in> set ns" and path: "(y, x) \<in> (entryEdges depMap)\<^sup>+"
  shows "y \<in> set (getDependants (Names ns) depMap)"
proof -
  obtain r stack' where eq: "getDependants_stack (Names ns) depMap [] = (r, stack')"
    by (cases "getDependants_stack (Names ns) depMap []")
  have "closedRevExcept depMap {} (set [])"
    by (simp add: closedRevExcept_def dependantsIn_def)
  from getDependants_stack_invariant(1)[OF this eq]
  have a: "closedRevExcept depMap {} (set r)" "dependantsIn depMap (set ns) \<subseteq> set r"
    by simp_all
  from path have "y \<in> set r"
  proof (induction rule: converse_trancl_induct)
    case (base y)
    with x a(2) show ?case by (auto simp: dependantsIn_def)
  next
    case (step y z)
    with a(1) show ?case by (auto simp: closedRevExcept_def dependantsIn_def)
  qed
  with eq show ?thesis by (simp add: getDependants_def)
qed


section \<open>Property and variable expansion\<close>

text \<open>
  The array helpers of the library as the build script uses them: \<^verbatim>\<open>_.pull\<close> removes every
  occurrence of the given values, \<^verbatim>\<open>_.union\<close> concatenates and removes duplicates,
  \<^verbatim>\<open>_.difference\<close> keeps the elements of the first array that are in no other, and
  \<^verbatim>\<open>_.intersection\<close> keeps the distinct elements of the first array that are in the other.

  \<^verbatim>\<open>expand(result, depMap, funcNames, stack)\<close> (lines 3081-3102) is local to \<^verbatim>\<open>build\<close> and
  reads and assigns the enclosing \<^verbatim>\<open>buildFuncs\<close> and reads \<^verbatim>\<open>funcDepMap\<close>; the model
  passes both and returns the new \<^verbatim>\<open>buildFuncs\<close> next to the result and the stack.
  \<^verbatim>\<open>_.reduce(funcNames || depMap, ...)\<close> enumerates the names of \<^verbatim>\<open>funcNames\<close> with their
  entry \<^verbatim>\<open>depMap[funcName] || []\<close> when \<^verbatim>\<open>funcNames\<close> is given and the entries of
  \<^verbatim>\<open>depMap\<close> otherwise (\<open>expand_items\<close>); \<open>expand_reduce\<close> is the callback loop and
  \<open>expand_deps\<close> the inner \<^verbatim>\<open>_.uniq(_.transform(identifiers, ...))\<close>:
  \<^verbatim>\<open>
  if (!_.contains(stack, funcName) && (funcNames || _.contains(buildFuncs, funcName))) {
    var deps = _.uniq(_.transform(identifiers, function(deps, identifier) {
      push.apply(deps, getDependencies(identifier, funcDepMap));
    }));
    stack.push(funcName);
    push.apply(result, identifiers);
    buildFuncs = _.union(buildFuncs, deps);
    result = expand(result, depMap, deps, stack);
  }
  return result;
  \<close>
\<close>

definition pull :: "'a list \<Rightarrow> 'a list \<Rightarrow> 'a list" where
  "pull array vals = filter (\<lambda>x. x \<notin> set vals) array"

definition union_arr :: "'a list \<Rightarrow> 'a list \<Rightarrow> 'a list" where
  "union_arr xs ys = uniq (xs @ ys)"

definition difference_arr :: "'a list \<Rightarrow> 'a list \<Rightarrow> 'a list" where
  "difference_arr xs ys = filter (\<lambda>x. x \<notin> set ys) xs"


definition expand_items :: "depMap \<Rightarrow> string list option \<Rightarrow> (string \<times> string list) list" where
  "expand_items depMap funcNames =
     (case funcNames of
        None \<Rightarrow> depMap
      | Some ns \<Rightarrow>
          map (\<lambda>funcName. (funcName, case map_of depMap funcName of Some ids \<Rightarrow> ids | None \<Rightarrow> [])) ns)"

definition expand_deps :: "depMap \<Rightarrow> string list \<Rightarrow> string list" where
  "expand_deps funcDepMap identifiers =
     uniq (concat (map (\<lambda>identifier. getDependencies (Name identifier) funcDepMap False) identifiers))"

function expand ::
    "depMap \<Rightarrow> string list \<Rightarrow> depMap \<Rightarrow> string list option \<Rightarrow> string list \<Rightarrow> string list
       \<Rightarrow> string list \<times> string list \<times> string list"
  and expand_reduce ::
    "depMap \<Rightarrow> depMap \<Rightarrow> bool \<Rightarrow> (string \<times> string list) list \<Rightarrow> string list \<Rightarrow> string list
       \<Rightarrow> string list \<Rightarrow> string list \<times> string list \<times> string list"
where
  "expand funcDepMap result depMap funcNames stack buildFuncs =
     (case expand_reduce funcDepMap depMap (funcNames \<noteq> None) (expand_items depMap funcNames)
             result stack buildFuncs of
        (result', stack', buildFuncs') \<Rightarrow> (uniq result', stack', buildFuncs'))"
| "expand_reduce funcDepMap depMap given [] result stack buildFuncs = (result, stack, buildFuncs)"
| "expand_reduce funcDepMap depMap given ((funcName, identifiers) # rest) result stack buildFuncs =
     (if funcName \<notin> set stack \<and> (given \<or> funcName \<in> set buildFuncs) then
        (let deps = expand_deps funcDepMap identifiers
         in case expand funcDepMap (result @ identifiers) depMap (Some deps)
                   (stack @ [funcName]) (union_arr buildFuncs deps) of
              (result', stack', buildFuncs') \<Rightarrow>
                expand_reduce funcDepMap depMap given rest result' stack' buildFuncs')
      else expand_reduce funcDepMap depMap given rest result stack buildFuncs)"
  by pat_completeness auto

lemma expand_stack_mono_dom:
  "expand_expand_reduce_dom (Inl (funcDepMap, result, depMap, funcNames, stack, buildFuncs)) \<Longrightarrow>
     set stack \<subseteq> set (fst (snd (expand funcDepMap result depMap funcNames stack buildFuncs)))"
  "expand_expand_reduce_dom (Inr (funcDepMap, depMap, given, items, result, stack, buildFuncs)) \<Longrightarrow>
     set stack \<subseteq> set (fst (snd (expand_reduce funcDepMap depMap given items result stack buildFuncs)))"
proof (induct rule: expand_expand_reduce.pinduct)
  case (1 funcDepMap result depMap funcNames stack buildFuncs)
  obtain r s b where eq: "expand_reduce funcDepMap depMap (funcNames \<noteq> None)
      (expand_items depMap funcNames) result stack buildFuncs = (r, s, b)"
    by (cases "expand_reduce funcDepMap depMap (funcNames \<noteq> None)
      (expand_items depMap funcNames) result stack buildFuncs")
  with 1(2) have "set stack \<subseteq> set s" by simp
  with eq 1(1) show ?case by (simp add: expand.psimps)
next
  case (2 funcDepMap depMap given result stack buildFuncs)
  then show ?case by (simp add: expand_reduce.psimps)
next
  case (3 funcDepMap depMap given funcName identifiers rest result stack buildFuncs)
  let ?c = "funcName \<notin> set stack \<and> (given \<or> funcName \<in> set buildFuncs)"
  let ?deps = "expand_deps funcDepMap identifiers"
  have unf: "expand_reduce funcDepMap depMap given ((funcName, identifiers) # rest) result stack buildFuncs =
     (if ?c then
        (let deps = expand_deps funcDepMap identifiers
         in case expand funcDepMap (result @ identifiers) depMap (Some deps)
                   (stack @ [funcName]) (union_arr buildFuncs deps) of
              (result', stack', buildFuncs') \<Rightarrow>
                expand_reduce funcDepMap depMap given rest result' stack' buildFuncs')
      else expand_reduce funcDepMap depMap given rest result stack buildFuncs)"
    using 3(1) by (rule expand_reduce.psimps)
  show ?case
  proof (cases ?c)
    case False
    from 3(4)[OF False]
    have "set stack \<subseteq> set (fst (snd (expand_reduce funcDepMap depMap given rest result stack buildFuncs)))" .
    moreover from False
    have "expand_reduce funcDepMap depMap given ((funcName, identifiers) # rest) result stack buildFuncs
          = expand_reduce funcDepMap depMap given rest result stack buildFuncs"
      unfolding unf by (rule if_not_P)
    ultimately show ?thesis by simp
  next
    case True
    obtain r s b where eq:
      "expand funcDepMap (result @ identifiers) depMap (Some ?deps) (stack @ [funcName])
         (union_arr buildFuncs ?deps) = (r, s, b)"
      by (cases "expand funcDepMap (result @ identifiers) depMap (Some ?deps) (stack @ [funcName])
         (union_arr buildFuncs ?deps)")
    from 3(2)[OF True refl] eq have a: "set (stack @ [funcName]) \<subseteq> set s" by simp
    from 3(3)[OF True refl eq[symmetric] refl]
    have b: "set s \<subseteq> set (fst (snd (expand_reduce funcDepMap depMap given rest r s b)))" .
    from True
    have "expand_reduce funcDepMap depMap given ((funcName, identifiers) # rest) result stack buildFuncs
          = (let deps = expand_deps funcDepMap identifiers
         in case expand funcDepMap (result @ identifiers) depMap (Some deps)
                   (stack @ [funcName]) (union_arr buildFuncs deps) of
              (result', stack', buildFuncs') \<Rightarrow>
                expand_reduce funcDepMap depMap given rest result' stack' buildFuncs')"
      unfolding unf by (rule if_P)
    with eq have "expand_reduce funcDepMap depMap given ((funcName, identifiers) # rest) result stack buildFuncs
          = expand_reduce funcDepMap depMap given rest r s b"
      by (simp add: Let_def)
    with a b show ?thesis by auto
  qed
qed

lemma set_expand_deps_subset: "set (expand_deps funcDepMap identifiers) \<subseteq> depNames funcDepMap"
proof -
  have "(edges funcDepMap)\<^sup>+ `` {i} \<subseteq> depNames funcDepMap" for i
  proof
    fix y assume "y \<in> (edges funcDepMap)\<^sup>+ `` {i}"
    then have "(i, y) \<in> (edges funcDepMap)\<^sup>+" by simp
    then obtain z where "(z, y) \<in> edges funcDepMap" by (auto dest: tranclD2)
    then show "y \<in> depNames funcDepMap"
      using depsOf_Name_subset by (auto simp: edges_iff)
  qed
  then show ?thesis
    by (auto simp: expand_deps_def set_getDependencies_Name)
qed

lemma fst_set_expand_items_Some: "fst ` set (expand_items depMap (Some ns)) = set ns"
  by (force simp: expand_items_def)

lemma expand_dom_all: "All expand_expand_reduce_dom"
proof (relation "inv_image (less_than <*lex*> less_than)
    (\<lambda>x. case x of
        Inl (funcDepMap, result, depMap, funcNames, stack, buildFuncs) \<Rightarrow>
          (card ((depNames funcDepMap \<union> fst ` set (expand_items depMap funcNames)) - set stack),
           Suc (length (expand_items depMap funcNames)))
      | Inr (funcDepMap, depMap, given, items, result, stack, buildFuncs) \<Rightarrow>
          (card ((depNames funcDepMap \<union> fst ` set items) - set stack), length items))", goal_cases)
  case 1
  show ?case by (intro wf_inv_image wf_lex_prod wf_less_than)
next
  case (2 funcDepMap result depMap funcNames stack buildFuncs)
  then show ?case by simp
next
  case (3 funcDepMap depMap given funcName identifiers rest result stack buildFuncs x)
  then have ns: "funcName \<notin> set stack" by simp
  have "(depNames funcDepMap \<union> fst ` set (expand_items depMap (Some x))) - set (stack @ [funcName])
        \<subset> (depNames funcDepMap \<union> fst ` set ((funcName, identifiers) # rest)) - set stack"
    using ns set_expand_deps_subset[of funcDepMap identifiers] 3(2)
    by (auto simp: fst_set_expand_items_Some)
  then have "card ((depNames funcDepMap \<union> fst ` set (expand_items depMap (Some x))) - set (stack @ [funcName]))
        < card ((depNames funcDepMap \<union> fst ` set ((funcName, identifiers) # rest)) - set stack)"
    by (intro psubset_card_mono) (auto simp: finite_depNames)
  then show ?case by simp
next
  case (4 funcDepMap depMap given funcName identifiers rest result stack buildFuncs x xa y xb ya)
  from expand_stack_mono_dom(1)[OF 4(5)] 4(3,4)
  have "set (stack @ [funcName]) \<subseteq> set xb"
    by (metis fst_conv snd_conv)
  then have "(depNames funcDepMap \<union> fst ` set rest) - set xb
      \<subseteq> (depNames funcDepMap \<union> fst ` set ((funcName, identifiers) # rest)) - set stack"
    by auto
  then have "card ((depNames funcDepMap \<union> fst ` set rest) - set xb)
      \<le> card ((depNames funcDepMap \<union> fst ` set ((funcName, identifiers) # rest)) - set stack)"
    by (intro card_mono) (auto simp: finite_depNames)
  then show ?case by auto
next
  case (5 funcDepMap depMap given funcName identifiers rest result stack buildFuncs)
  have "(depNames funcDepMap \<union> fst ` set rest) - set stack
      \<subseteq> (depNames funcDepMap \<union> fst ` set ((funcName, identifiers) # rest)) - set stack"
    by auto
  then have "card ((depNames funcDepMap \<union> fst ` set rest) - set stack)
      \<le> card ((depNames funcDepMap \<union> fst ` set ((funcName, identifiers) # rest)) - set stack)"
    by (intro card_mono) (auto simp: finite_depNames)
  then show ?case by auto
qed

termination expand
  by (rule expand_dom_all)

declare expand.simps [simp del]


lemma closedExcept_Un:
  "closedExcept depMap {} A \<Longrightarrow> closedExcept depMap {} B \<Longrightarrow> closedExcept depMap {} (A \<union> B)"
  by (auto simp: closedExcept_def)

lemma closed_expand_deps: "closedExcept funcDepMap {} (set (expand_deps funcDepMap identifiers))"
proof (induction identifiers)
  case Nil
  then show ?case by (simp add: expand_deps_def closedExcept_def)
next
  case (Cons i identifiers)
  have "set (expand_deps funcDepMap (i # identifiers))
      = set (getDependencies (Name i) funcDepMap False) \<union> set (expand_deps funcDepMap identifiers)"
    by (simp add: expand_deps_def)
  with closedExcept_Un[OF closed_getDependencies[of funcDepMap "Name i"] Cons] show ?case
    by simp
qed

lemma expand_closed:
  "closedExcept funcDepMap {} (set buildFuncs) \<Longrightarrow>
   expand funcDepMap result depMap funcNames stack buildFuncs = (r, s, b) \<Longrightarrow>
     closedExcept funcDepMap {} (set b) \<and> set buildFuncs \<subseteq> set b"
  "closedExcept funcDepMap {} (set buildFuncs) \<Longrightarrow>
   expand_reduce funcDepMap depMap given items result stack buildFuncs = (r, s, b) \<Longrightarrow>
     closedExcept funcDepMap {} (set b) \<and> set buildFuncs \<subseteq> set b"
proof (induct funcDepMap result depMap funcNames stack buildFuncs
          and funcDepMap depMap given items result stack buildFuncs
       arbitrary: r s b and r s b rule: expand_expand_reduce.induct)
  case (1 funcDepMap result depMap funcNames stack buildFuncs)
  obtain r1 s1 b1 where eq: "expand_reduce funcDepMap depMap (funcNames \<noteq> None)
      (expand_items depMap funcNames) result stack buildFuncs = (r1, s1, b1)"
    by (cases "expand_reduce funcDepMap depMap (funcNames \<noteq> None)
      (expand_items depMap funcNames) result stack buildFuncs")
  with "1.prems"(2) have "b = b1" by (simp add: expand.simps)
  with "1.hyps"[OF "1.prems"(1) eq] show ?case by simp
next
  case (2 funcDepMap depMap given result stack buildFuncs)
  then show ?case by simp
next
  case (3 funcDepMap depMap given funcName identifiers rest result stack buildFuncs)
  let ?c = "funcName \<notin> set stack \<and> (given \<or> funcName \<in> set buildFuncs)"
  let ?deps = "expand_deps funcDepMap identifiers"
  show ?case
  proof (cases ?c)
    case False
    with "3.prems"(2)
    have "expand_reduce funcDepMap depMap given rest result stack buildFuncs = (r, s, b)"
      by auto
    from "3.hyps"(3)[OF False "3.prems"(1) this] show ?thesis .
  next
    case True
    obtain r1 s1 b1 where eq:
      "expand funcDepMap (result @ identifiers) depMap (Some ?deps) (stack @ [funcName])
         (union_arr buildFuncs ?deps) = (r1, s1, b1)"
      by (cases "expand funcDepMap (result @ identifiers) depMap (Some ?deps) (stack @ [funcName])
         (union_arr buildFuncs ?deps)")
    have cl: "closedExcept funcDepMap {} (set (union_arr buildFuncs ?deps))"
      using closedExcept_Un[OF "3.prems"(1) closed_expand_deps[of funcDepMap identifiers]]
      by (simp add: union_arr_def)
    from "3.hyps"(1)[OF True refl cl eq]
    have a: "closedExcept funcDepMap {} (set b1)" "set (union_arr buildFuncs ?deps) \<subseteq> set b1"
      by simp_all
    from "3.prems"(2) True eq
    have eq2: "expand_reduce funcDepMap depMap given rest r1 s1 b1 = (r, s, b)"
      by (simp add: Let_def)
    from "3.hyps"(2)[OF True refl eq[symmetric] refl a(1) eq2]
    have "closedExcept funcDepMap {} (set b)" "set b1 \<subseteq> set b" by simp_all
    with a(2) show ?thesis by (auto simp: union_arr_def)
  qed
qed

section \<open>Resolving the build set\<close>

text \<open>Lists derived from the tables (lines 467-524, 565-592, 595-626, 628-647).\<close>

definition backboneDependencies :: "string list" where
  "backboneDependencies =
  [''bind'', ''bindAll'', ''chain'', ''clone'', ''contains'', ''countBy'', ''defaults'',
   ''escape'', ''every'', ''extend'', ''filter'', ''find'', ''first'', ''forEach'',
   ''groupBy'', ''has'', ''indexOf'', ''initial'', ''invert'', ''invoke'', ''isArray'',
   ''isEmpty'', ''isEqual'', ''isFunction'', ''isObject'', ''isRegExp'', ''isString'',
   ''keys'', ''last'', ''lastIndexOf'', ''lodash'', ''map'', ''max'', ''min'', ''mixin'',
   ''omit'', ''once'', ''pairs'', ''pick'', ''reduce'', ''reduceRight'', ''reject'',
   ''rest'', ''result'', ''shuffle'', ''size'', ''some'', ''sortBy'', ''sortedIndex'',
   ''toArray'', ''uniqueId'', ''value'', ''values'', ''without'', ''wrapperChain'',
   ''wrapperValueOf'']"

definition lodashOnlyFuncs :: "string list" where
  "lodashOnlyFuncs =
  [''at'', ''bindKey'', ''cloneDeep'', ''createCallback'', ''curry'', ''findIndex'',
   ''findKey'', ''findLast'', ''findLastIndex'', ''findLastKey'', ''forEachRight'',
   ''forIn'', ''forInRight'', ''forOwn'', ''forOwnRight'', ''indexBy'', ''isPlainObject'',
   ''merge'', ''parseInt'', ''partialRight'', ''pull'', ''remove'', ''runInContext'',
   ''sample'', ''transform'', ''wrapperToString'']"

definition privateFuncs :: "string list" where
  "privateFuncs =
  [''baseClone'', ''baseCreateCallback'', ''baseEach'', ''baseFlatten'', ''baseIndexOf'',
   ''baseIsEqual'', ''baseMerge'', ''baseUniq'', ''cacheIndexOf'', ''cachePush'',
   ''charAtCallback'', ''compareAscending'', ''createBound'', ''createCache'',
   ''createIterator'', ''escapeHtmlChar'', ''escapeStringChar'', ''getArray'', ''getObject'',
   ''isNode'', ''iteratorTemplate'', ''lodashWrapper'', ''noop'', ''releaseArray'',
   ''releaseObject'', ''setBindData'', ''shimIsPlainObject'', ''shimKeys'', ''slice'',
   ''unescapeHtmlChar'']"

definition propDependencies :: "string list" where
  "propDependencies = uniq (concat (map snd propDependencyMap))"

definition varDependencies :: "string list" where
  "varDependencies = uniq (concat (map snd varDependencyMap))"

text \<open>
  \<^verbatim>\<open>allFuncs\<close> filters the keys by \<^verbatim>\<open>typeof _[key]\<close>, a property of the library file
  \<^verbatim>\<open>lodash.js\<close> that the build script loads; the test
  \<^verbatim>\<open>type == 'function' || type == 'undefined'\<close> is the parameter \<open>isFunc\<close>.
\<close>

definition allFuncs :: "(string \<Rightarrow> bool) \<Rightarrow> string list" where
  "allFuncs isFunc =
     filter isFunc (difference_arr (map fst funcDependencyMap) (propDependencies @ varDependencies))"

definition lodashFuncs :: "(string \<Rightarrow> bool) \<Rightarrow> string list" where
  "lodashFuncs isFunc = difference_arr (allFuncs isFunc) (privateFuncs @ [''findWhere''])"

definition underscoreFuncs :: "(string \<Rightarrow> bool) \<Rightarrow> string list" where
  "underscoreFuncs isFunc = difference_arr (allFuncs isFunc) (lodashOnlyFuncs @ privateFuncs)"

text \<open>
  The part of \<^verbatim>\<open>build\<close> that resolves the names to keep (lines 3044-3106), for a build that
  is not a template build. The record holds the variables of \<^verbatim>\<open>build\<close> that this part
  reads, as they stand after the dependency maps have been cloned and rewritten for the
  chosen environment. \<^verbatim>\<open>result\<close> may still be \<^verbatim>\<open>undefined\<close> (no explicit names, but
  properties or variables requested), which is \<open>None\<close>.
  \<^item> \<open>build_includeResult\<close>: explicit names, else the default names (lines 3044-3058);
  \<^item> \<open>build_removeNone\<close>: the special \<^verbatim>\<open>none\<close> entry (lines 3059-3064). The comparison
    \<^verbatim>\<open>result == 'none'\<close> of an array with a string compares \<^verbatim>\<open>result.join(',')\<close>;
  \<^item> \<open>build_plusMinus\<close>: \<^verbatim>\<open>plus\<close>, \<^verbatim>\<open>minus\<close> and the \<^verbatim>\<open>modularize\<close> adjustment
    (lines 3065-3075);
  \<^item> \<open>build_buildFuncs\<close>: the closing \<^verbatim>\<open>getDependencies(result, funcDepMap)\<close>, where an
    undefined \<^verbatim>\<open>result\<close> is looked up as the key \<^verbatim>\<open>undefined\<close>;
  \<^item> \<open>build_expand\<close>: the two \<^verbatim>\<open>expand\<close> calls (lines 3104-3105); it returns the final
    \<^verbatim>\<open>buildFuncs\<close>, \<^verbatim>\<open>includeProps\<close> and \<^verbatim>\<open>includeVars\<close>.
\<close>

record buildState =
  includeFuncs :: "string list"
  includeProps :: "string list"
  includeVars :: "string list"
  minusFuncs :: "string list"
  plusFuncs :: "string list"
  isBackbone :: bool
  isUnderscore :: bool
  isModularize :: bool
  funcDepMap :: depMap
  propDepMap :: depMap
  varDepMap :: depMap

definition build_includeResult :: "(string \<Rightarrow> bool) \<Rightarrow> buildState \<Rightarrow> string list option" where
  "build_includeResult isFunc st =
     (let result = (if includeFuncs st \<noteq> [] then Some (includeFuncs st) else None)
      in if includeProps st = [] \<and> includeVars st = [] then
           (case result of
              Some r \<Rightarrow> Some r
            | None \<Rightarrow>
                Some (if isBackbone st then backboneDependencies
                      else if isUnderscore st then underscoreFuncs isFunc
                      else lodashFuncs isFunc))
         else result)"

fun join :: "string list \<Rightarrow> string" where
  "join [] = []"
| "join [x] = x"
| "join (x # y # ys) = x @ '','' @ join (y # ys)"

definition build_removeNone :: "string list option \<Rightarrow> string list option" where
  "build_removeNone result =
     (case result of
        None \<Rightarrow> None
      | Some r \<Rightarrow> if join r = ''none'' then Some [] else Some (pull r [''none'']))"

definition build_plusMinus :: "buildState \<Rightarrow> string list option \<Rightarrow> string list option" where
  "build_plusMinus st result =
     (let arr = (\<lambda>r. case r of Some xs \<Rightarrow> xs | None \<Rightarrow> []);
          r1 = (if plusFuncs st \<noteq> [] then Some (union_arr (arr result) (plusFuncs st)) else result);
          r2 = (if minusFuncs st \<noteq> []
                then Some (difference_arr (arr r1)
                       (minusFuncs st @ getDependants (Names (minusFuncs st)) (funcDepMap st)))
                else r1)
      in if isModularize st then map_option (\<lambda>r. pull r [''runInContext'']) r2 else r2)"

definition build_buildFuncs :: "(string \<Rightarrow> bool) \<Rightarrow> buildState \<Rightarrow> string list" where
  "build_buildFuncs isFunc st =
     getDependencies
       (case build_plusMinus st (build_removeNone (build_includeResult isFunc st)) of
          Some r \<Rightarrow> Names r
        | None \<Rightarrow> Name ''undefined'')
       (funcDepMap st) False"

definition build_expand ::
    "(string \<Rightarrow> bool) \<Rightarrow> buildState \<Rightarrow> string list \<times> string list \<times> string list" where
  "build_expand isFunc st =
     (case expand (funcDepMap st) (includeProps st) (propDepMap st) None []
             (build_buildFuncs isFunc st) of
        (includeProps', stackP, buildFuncs1) \<Rightarrow>
          (case expand (funcDepMap st) (includeVars st) (varDepMap st) None [] buildFuncs1 of
             (includeVars', stackV, buildFuncs2) \<Rightarrow> (buildFuncs2, includeProps', includeVars')))"

lemma build_expand_closed:
  assumes "build_expand isFunc st = (buildFuncs, props, vars)"
  shows "closedExcept (funcDepMap st) {} (set buildFuncs)"
proof -
  obtain p sp b1 where e1: "expand (funcDepMap st) (includeProps st) (propDepMap st) None []
             (build_buildFuncs isFunc st) = (p, sp, b1)"
    by (cases "expand (funcDepMap st) (includeProps st) (propDepMap st) None []
             (build_buildFuncs isFunc st)")
  obtain v sv b2 where e2: "expand (funcDepMap st) (includeVars st) (varDepMap st) None [] b1 = (v, sv, b2)"
    by (cases "expand (funcDepMap st) (includeVars st) (varDepMap st) None [] b1")
  from assms e1 e2 have b: "buildFuncs = b2" by (simp add: build_expand_def)
  have "closedExcept (funcDepMap st) {} (set (build_buildFuncs isFunc st))"
    unfolding build_buildFuncs_def by (rule closed_getDependencies)
  from expand_closed(1)[OF this e1] have "closedExcept (funcDepMap st) {} (set b1)" by simp
  from expand_closed(1)[OF this e2] b show ?thesis by simp
qed

lemma set_build_plusMinus_minus:
  assumes "minusFuncs st \<noteq> []" and "build_plusMinus st result = Some r"
  shows "set r \<inter> (set (minusFuncs st) \<union> set (getDependants (Names (minusFuncs st)) (funcDepMap st))) = {}"
  using assms
  by (auto simp: build_plusMinus_def Let_def difference_arr_def pull_def split: if_splits)

lemma build_plusMinus_minus_Some:
  assumes "minusFuncs st \<noteq> []"
  shows "\<exists>r. build_plusMinus st result = Some r"
  using assms by (auto simp: build_plusMinus_def Let_def)


section \<open>The default environment\<close>

text \<open>
  With no environment flag (\<^verbatim>\<open>isLegacy\<close>, \<^verbatim>\<open>isMobile\<close>, \<^verbatim>\<open>isModern\<close>, \<^verbatim>\<open>isModularize\<close> and
  \<^verbatim>\<open>isUnderscore\<close> all false) \<^verbatim>\<open>build\<close> rewrites only the clone of the function map:
  \<^verbatim>\<open>delete funcDepMap.findWhere\<close> (line 2663), the chaining edges of the
  \<^verbatim>\<open>else\<close> branch of \<^verbatim>\<open>if (isModularize)\<close> (lines 2835-2843) and, when \<^verbatim>\<open>plus\<close> names
  \<^verbatim>\<open>chain\<close>, \<^verbatim>\<open>_.pull(funcDepMap.mixin, 'isFunction')\<close> (lines 2853-2855). The clones of the
  property and variable maps stay as they are. \<open>pushDeps\<close> and \<open>pullDeps\<close> are
  \<^verbatim>\<open>depMap[key].push(...)\<close> and \<^verbatim>\<open>_.pull(depMap[key], ...)\<close> on an existing key.
\<close>

definition deleteKey :: "string \<Rightarrow> depMap \<Rightarrow> depMap" where
  "deleteKey key depMap = filter (\<lambda>(k, v). k \<noteq> key) depMap"

definition pushDeps :: "string \<Rightarrow> string list \<Rightarrow> depMap \<Rightarrow> depMap" where
  "pushDeps key vals depMap = map (\<lambda>(k, v). if k = key then (k, v @ vals) else (k, v)) depMap"

definition pullDeps :: "string \<Rightarrow> string list \<Rightarrow> depMap \<Rightarrow> depMap" where
  "pullDeps key vals depMap = map (\<lambda>(k, v). if k = key then (k, pull v vals) else (k, v)) depMap"

definition build_defaultFuncDepMap :: "string list \<Rightarrow> depMap" where
  "build_defaultFuncDepMap plusNames =
     (let m1 = deleteKey ''findWhere'' funcDependencyMap;
          m2 = pushDeps ''chain'' [''wrapperChain''] m1;
          m3 = pushDeps ''wrapperValueOf''
                 [''baseEach'', ''chain'', ''forOwn'', ''mixin'', ''wrapperChain'', ''wrapperToString''] m2;
          m4 = fold (\<lambda>funcName. pushDeps funcName [''wrapperValueOf''])
                 [''lodashWrapper'', ''tap'', ''wrapperChain'', ''wrapperToString''] m3
      in if ''chain'' \<in> set plusNames then pullDeps ''mixin'' [''isFunction''] m4 else m4)"

text \<open>
  Two invocations in the default environment, as \<^verbatim>\<open>build\<close> holds them once the options are
  parsed: \<^verbatim>\<open>lodash include=difference\<close> and \<^verbatim>\<open>lodash include=unescape minus=invert\<close>.
\<close>

definition st_difference :: buildState where
  "st_difference = \<lparr>includeFuncs = [''difference''], includeProps = [], includeVars = [],
     minusFuncs = [], plusFuncs = [], isBackbone = False, isUnderscore = False,
     isModularize = False, funcDepMap = build_defaultFuncDepMap [],
     propDepMap = propDependencyMap, varDepMap = varDependencyMap\<rparr>"


definition st_unescape :: buildState where
  "st_unescape = \<lparr>includeFuncs = [''unescape''], includeProps = [], includeVars = [],
     minusFuncs = [''invert''], plusFuncs = [], isBackbone = False, isUnderscore = False,
     isModularize = False, funcDepMap = build_defaultFuncDepMap [],
     propDepMap = propDependencyMap, varDepMap = varDependencyMap\<rparr>"

lemma map_of_deleteKey:
  "map_of (deleteKey key depMap) x = (if x = key then None else map_of depMap x)"
  by (induction depMap) (auto simp: deleteKey_def)

lemma map_of_pushDeps:
  "map_of (pushDeps key vals depMap) x =
     (if x = key then map_option (\<lambda>v. v @ vals) (map_of depMap x) else map_of depMap x)"
  by (induction depMap) (auto simp: pushDeps_def)

lemma map_of_pullDeps:
  "map_of (pullDeps key vals depMap) x =
     (if x = key then map_option (\<lambda>v. pull v vals) (map_of depMap x) else map_of depMap x)"
  by (induction depMap) (auto simp: pullDeps_def)

lemma expand_None_items:
  "items = dm \<Longrightarrow>
   expand fdm result dm None stack bf =
     (case expand_reduce fdm dm False items result stack bf of
        (result', stack', bf') \<Rightarrow> (uniq result', stack', bf'))"
  by (simp add: expand.simps expand_items_def)

lemma expand_Some:
  "expand fdm result dm (Some ns) stack bf =
     (case expand_reduce fdm dm True
             (map (\<lambda>funcName. (funcName, case map_of dm funcName of Some ids \<Rightarrow> ids | None \<Rightarrow> [])) ns)
             result stack bf of
        (result', stack', bf') \<Rightarrow> (uniq result', stack', bf'))"
  by (simp add: expand.simps expand_items_def)

lemma funcDependencyMap_lookup_1:
  "map_of funcDependencyMap ''arrayPool'' = None"
  "map_of funcDependencyMap ''baseCreateCallback'' = Some [''bind'', ''identity'', ''setBindData'']"
  "map_of funcDependencyMap ''baseFlatten'' = Some [''isArguments'', ''isArray'']"
  "map_of funcDependencyMap ''baseIndexOf'' = Some []"
  "map_of funcDependencyMap ''baseIsEqual'' = Some [''forIn'', ''getArray'', ''isArguments'', ''isFunction'', ''isNode'', ''releaseArray'']"
  "map_of funcDependencyMap ''bind'' = Some [''createBound'']"
  "map_of funcDependencyMap ''cacheIndexOf'' = Some [''baseIndexOf'']"
  "map_of funcDependencyMap ''cachePush'' = Some []"
  by code_simp+

lemma funcDependencyMap_lookup_2:
  "map_of funcDependencyMap ''createBound'' = Some [''createObject'', ''isFunction'', ''isObject'', ''setBindData'']"
  "map_of funcDependencyMap ''createCache'' = Some [''cachePush'', ''getObject'', ''releaseObject'']"
  "map_of funcDependencyMap ''createCallback'' = Some [''baseCreateCallback'', ''baseIsEqual'', ''isObject'', ''keys'']"
  "map_of funcDependencyMap ''createIterator'' = Some [''baseCreateCallback'', ''getObject'', ''isArguments'', ''isArray'', ''isString'', ''iteratorTemplate'', ''releaseObject'']"
  "map_of funcDependencyMap ''createObject'' = Some [''isObject'', ''noop'']"
  "map_of funcDependencyMap ''difference'' = Some [''baseFlatten'', ''cacheIndexOf'', ''createCache'', ''getIndexOf'', ''releaseObject'']"
  "map_of funcDependencyMap ''eachIteratorOptions'' = Some [''keys'']"
  "map_of funcDependencyMap ''forIn'' = Some [''createIterator'']"
  by code_simp+

lemma funcDependencyMap_lookup_3:
  "map_of funcDependencyMap ''forOwnIteratorOptions'' = None"
  "map_of funcDependencyMap ''getArray'' = Some []"
  "map_of funcDependencyMap ''getIndexOf'' = Some [''baseIndexOf'', ''indexOf'']"
  "map_of funcDependencyMap ''getObject'' = Some []"
  "map_of funcDependencyMap ''htmlUnescapes'' = Some [''invert'']"
  "map_of funcDependencyMap ''identity'' = Some []"
  "map_of funcDependencyMap ''indexOf'' = Some [''baseIndexOf'', ''sortedIndex'']"
  "map_of funcDependencyMap ''indicatorObject'' = None"
  by code_simp+

lemma funcDependencyMap_lookup_4:
  "map_of funcDependencyMap ''invert'' = Some [''keys'']"
  "map_of funcDependencyMap ''isArguments'' = Some []"
  "map_of funcDependencyMap ''isArray'' = Some []"
  "map_of funcDependencyMap ''isFunction'' = Some []"
  "map_of funcDependencyMap ''isNode'' = Some []"
  "map_of funcDependencyMap ''isObject'' = Some []"
  "map_of funcDependencyMap ''isString'' = Some []"
  "map_of funcDependencyMap ''iteratorTemplate'' = Some []"
  by code_simp+

lemma funcDependencyMap_lookup_5:
  "map_of funcDependencyMap ''keyPrefix'' = None"
  "map_of funcDependencyMap ''keys'' = Some [''isArguments'', ''isObject'', ''shimKeys'']"
  "map_of funcDependencyMap ''largeArraySize'' = None"
  "map_of funcDependencyMap ''maxPoolSize'' = None"
  "map_of funcDependencyMap ''noop'' = Some []"
  "map_of funcDependencyMap ''objectPool'' = None"
  "map_of funcDependencyMap ''objectTypes'' = None"
  "map_of funcDependencyMap ''reEscapedHtml'' = Some [''keys'']"
  by code_simp+

lemma funcDependencyMap_lookup_6:
  "map_of funcDependencyMap ''reNative'' = None"
  "map_of funcDependencyMap ''releaseArray'' = Some []"
  "map_of funcDependencyMap ''releaseObject'' = Some []"
  "map_of funcDependencyMap ''setBindData'' = Some [''getObject'', ''noop'', ''releaseObject'']"
  "map_of funcDependencyMap ''shimKeys'' = Some [''createIterator'']"
  "map_of funcDependencyMap ''sortedIndex'' = Some [''createCallback'', ''identity'']"
  "map_of funcDependencyMap ''support'' = None"
  "map_of funcDependencyMap ''unescape'' = Some [''keys'', ''unescapeHtmlChar'']"
  by code_simp+

lemma funcDependencyMap_lookup_7:
  "map_of funcDependencyMap ''unescapeHtmlChar'' = Some []"
  by code_simp+

lemma varDependencyMap_lookup_1:
  "map_of varDependencyMap ''baseCreateCallback'' = None"
  "map_of varDependencyMap ''bind'' = Some [''reNative'']"
  "map_of varDependencyMap ''createBound'' = Some [''reNative'']"
  "map_of varDependencyMap ''createIterator'' = Some [''indicatorObject'', ''objectTypes'']"
  "map_of varDependencyMap ''createObject'' = Some [''reNative'']"
  "map_of varDependencyMap ''getObject'' = Some [''objectPool'']"
  "map_of varDependencyMap ''identity'' = None"
  "map_of varDependencyMap ''invert'' = None"
  by code_simp+

lemma varDependencyMap_lookup_2:
  "map_of varDependencyMap ''isArguments'' = None"
  "map_of varDependencyMap ''isArray'' = Some [''reNative'']"
  "map_of varDependencyMap ''isFunction'' = None"
  "map_of varDependencyMap ''isObject'' = Some [''objectTypes'']"
  "map_of varDependencyMap ''isString'' = None"
  "map_of varDependencyMap ''iteratorTemplate'' = None"
  "map_of varDependencyMap ''keys'' = Some [''reNative'']"
  "map_of varDependencyMap ''noop'' = None"
  by code_simp+

lemma varDependencyMap_lookup_3:
  "map_of varDependencyMap ''releaseObject'' = Some [''maxPoolSize'', ''objectPool'']"
  "map_of varDependencyMap ''setBindData'' = Some [''reNative'']"
  "map_of varDependencyMap ''shimKeys'' = None"
  by code_simp+

lemma propDependencyMap_lookup_1:
  "map_of propDependencyMap ''support'' = None"
  by code_simp+

lemmas funcDependencyMap_lookup = funcDependencyMap_lookup_1 funcDependencyMap_lookup_2 funcDependencyMap_lookup_3 funcDependencyMap_lookup_4 funcDependencyMap_lookup_5 funcDependencyMap_lookup_6 funcDependencyMap_lookup_7
lemmas varDependencyMap_lookup = varDependencyMap_lookup_1 varDependencyMap_lookup_2 varDependencyMap_lookup_3

lemma getDependants_invert:
  "getDependants (Names [''invert'']) (build_defaultFuncDepMap []) = [''htmlUnescapes'']"
  by code_simp

lemma map_of_default:
  "map_of (build_defaultFuncDepMap []) x =
    (if x = ''wrapperToString'' \<or> x = ''wrapperChain'' \<or> x = ''tap'' \<or> x = ''lodashWrapper''
     then map_option (\<lambda>v. v @ [''wrapperValueOf'']) (map_of funcDependencyMap x)
     else if x = ''wrapperValueOf''
     then map_option (\<lambda>v. v @ [''baseEach'', ''chain'', ''forOwn'', ''mixin'', ''wrapperChain'', ''wrapperToString'']) (map_of funcDependencyMap x)
     else if x = ''chain'' then map_option (\<lambda>v. v @ [''wrapperChain'']) (map_of funcDependencyMap x)
     else if x = ''findWhere'' then None
     else map_of funcDependencyMap x)"
  by (simp add: build_defaultFuncDepMap_def map_of_pushDeps map_of_deleteKey)

lemmas expand_props = expand_None_items[OF propDependencyMap_def[symmetric]]
lemmas expand_vars = expand_None_items[OF varDependencyMap_def[symmetric]]

lemma bf_difference:
  "build_buildFuncs isFunc st_difference =
    [''isArguments'', ''isArray'', ''baseFlatten'', ''baseIndexOf'', ''cacheIndexOf'', ''cachePush'', ''getObject'', ''releaseObject'', ''createCache'', ''isObject'', ''noop'', ''createObject'', ''isFunction'', ''setBindData'', ''createBound'', ''bind'', ''identity'', ''baseCreateCallback'', ''isString'', ''iteratorTemplate'', ''createIterator'', ''forIn'', ''getArray'', ''isNode'', ''releaseArray'', ''baseIsEqual'', ''shimKeys'', ''keys'', ''createCallback'', ''sortedIndex'', ''indexOf'', ''getIndexOf'', ''difference'']"
  by (simp add: build_buildFuncs_def build_plusMinus_def build_removeNone_def build_includeResult_def
      st_difference_def difference_arr_def pull_def uniq_def Let_def
      getDependencies_def getDependencies_stack.simps depsOf_def map_of_default funcDependencyMap_lookup)

lemma expand_difference:
  "build_expand isFunc st_difference =
    ([''isArguments'', ''isArray'', ''baseFlatten'', ''baseIndexOf'', ''cacheIndexOf'', ''cachePush'', ''getObject'', ''releaseObject'', ''createCache'', ''isObject'', ''noop'', ''createObject'', ''isFunction'', ''setBindData'', ''createBound'', ''bind'', ''identity'', ''baseCreateCallback'', ''isString'', ''iteratorTemplate'', ''createIterator'', ''forIn'', ''getArray'', ''isNode'', ''releaseArray'', ''baseIsEqual'', ''shimKeys'', ''keys'', ''createCallback'', ''sortedIndex'', ''indexOf'', ''getIndexOf'', ''difference''],
     [''support''],
     [''objectTypes'', ''reNative'', ''keyPrefix'', ''indicatorObject'', ''largeArraySize'', ''eachIteratorOptions'', ''forOwnIteratorOptions'', ''objectPool'', ''maxPoolSize'', ''arrayPool''])"
  unfolding build_expand_def bf_difference
  by (simp add: Let_def st_difference_def expand_props expand_vars expand_Some expand_deps_def union_arr_def uniq_def
      getDependencies_def getDependencies_stack.simps depsOf_def map_of_default
      funcDependencyMap_lookup varDependencyMap_lookup propDependencyMap_lookup_1)


lemma bf_unescape:
  "build_buildFuncs isFunc st_unescape =
    [''isArguments'', ''isObject'', ''noop'', ''createObject'', ''isFunction'', ''getObject'', ''releaseObject'', ''setBindData'', ''createBound'', ''bind'', ''identity'', ''baseCreateCallback'', ''isArray'', ''isString'', ''iteratorTemplate'', ''createIterator'', ''shimKeys'', ''keys'', ''unescapeHtmlChar'', ''unescape'']"
  by (simp add: build_buildFuncs_def build_plusMinus_def build_removeNone_def build_includeResult_def
      st_unescape_def getDependants_invert difference_arr_def pull_def uniq_def Let_def
      getDependencies_def getDependencies_stack.simps depsOf_def map_of_default funcDependencyMap_lookup)


lemma expand_unescape:
  "build_expand isFunc st_unescape =
    ([''isArguments'', ''isObject'', ''noop'', ''createObject'', ''isFunction'', ''getObject'', ''releaseObject'', ''setBindData'', ''createBound'', ''bind'', ''identity'', ''baseCreateCallback'', ''isArray'', ''isString'', ''iteratorTemplate'', ''createIterator'', ''shimKeys'', ''keys'', ''unescapeHtmlChar'', ''unescape'', ''invert''],
     [''support''],
     [''reNative'', ''indicatorObject'', ''objectTypes'', ''objectPool'', ''maxPoolSize'', ''reEscapedHtml'', ''htmlUnescapes''])"
  unfolding build_expand_def bf_unescape
  by (simp add: Let_def st_unescape_def expand_props expand_vars expand_Some expand_deps_def union_arr_def uniq_def
      getDependencies_def getDependencies_stack.simps depsOf_def map_of_default
      funcDependencyMap_lookup varDependencyMap_lookup propDependencyMap_lookup_1)




section \<open>Validating the directives\<close>




type_synonym jsString = "nat list"

definition js :: "string \<Rightarrow> jsString" where
  "js s = map of_char s"




definition isLineTerminator :: "nat \<Rightarrow> bool" where
  "isLineTerminator u = (u = 0x0A \<or> u = 0x0D \<or> u = 0x2028 \<or> u = 0x2029)"

definition startsWith :: "jsString \<Rightarrow> jsString \<Rightarrow> bool" where
  "startsWith prefix s = (take (length prefix) s = prefix)"

definition isOption :: "string \<Rightarrow> jsString \<Rightarrow> bool" where
  "isOption name val =
     (startsWith (js (name @ ''='')) val
      \<and> list_all (\<lambda>u. \<not> isLineTerminator u) (drop (length name + 1) val))"









definition knownArgs :: "string list" where
  "knownArgs =
     [''backbone'', ''csp'', ''legacy'', ''mobile'', ''modern'', ''modularize'', ''strict'',
      ''underscore'', ''-c'', ''--stdout'', ''-d'', ''--debug'', ''-h'', ''--help'', ''-m'',
      ''--minify'', ''-n'', ''--no-dep'', ''-o'', ''--output'', ''-p'', ''--source-map'', ''-s'',
      ''--silent'', ''-V'', ''--version'']"

definition keyValueArgs :: "string list" where
  "keyValueArgs =
     [''category'', ''exclude'', ''exports'', ''iife'', ''include'', ''moduleId'', ''minus'',
      ''plus'', ''settings'', ''template'']"

definition validArg :: "jsString option \<Rightarrow> jsString \<Rightarrow> bool" where
  "validArg prev val =
     (prev = Some (js ''-o'') \<or> prev = Some (js ''--output'')
      \<or> list_ex (\<lambda>name. startsWith (js (name @ ''='')) val) keyValueArgs
      \<or> val \<in> set (map js knownArgs)
      \<or> prev = Some (js ''-p'') \<or> prev = Some (js ''--source-map''))"






























text \<open>
  A command that ends in the line separator U+2028 is an accepted argument, since
  \<^verbatim>\<open>[\s\S]*\<close> runs over it, but it is no \<^verbatim>\<open>include\<close> option, since \<^verbatim>\<open>.*\<close> stops before it.
\<close>

lemma lineSeparator_no_option:
  "validArg None (js ''include=map'' @ [0x2028])
   \<and> \<not> isOption ''include'' (js ''include=map'' @ [0x2028])
   \<and> isOption ''include'' (js ''include=map'')"
  by code_simp




section \<open>Properties of the resolver\<close>

subsection \<open>Closure of the build set\<close>

text \<open>
  Claim C1 (closure completeness). Whatever names are requested and whatever function map
  the environment rewrites have produced, the final \<^verbatim>\<open>buildFuncs\<close> (the closure computed by
  \<^verbatim>\<open>getDependencies\<close>, extended by the property and variable expansion) is closed: every
  direct dependency that the function map lists for a member of \<^verbatim>\<open>buildFuncs\<close> is itself a
  member of \<^verbatim>\<open>buildFuncs\<close>.
\<close>

theorem closure_completeness:
  assumes "build_expand isFunc st = (buildFuncs, props, vars)"
    and "I \<in> set buildFuncs"
    and "map_of (funcDepMap st) I = Some deps"
    and "d \<in> set deps"
  shows "d \<in> set buildFuncs"
proof -
  from build_expand_closed[OF assms(1)] assms(2)
  have "set (depsOf (Name I) (funcDepMap st)) \<subseteq> set buildFuncs"
    by (simp add: closedExcept_def)
  with assms(3,4) show ?thesis by (auto simp: depsOf_def)
qed

theorem closure_completeness_witness:
  "build_expand (\<lambda>_. True) st_difference =
     ([''isArguments'', ''isArray'', ''baseFlatten'', ''baseIndexOf'', ''cacheIndexOf'',
       ''cachePush'', ''getObject'', ''releaseObject'', ''createCache'', ''isObject'', ''noop'',
       ''createObject'', ''isFunction'', ''setBindData'', ''createBound'', ''bind'', ''identity'',
       ''baseCreateCallback'', ''isString'', ''iteratorTemplate'', ''createIterator'', ''forIn'',
       ''getArray'', ''isNode'', ''releaseArray'', ''baseIsEqual'', ''shimKeys'', ''keys'',
       ''createCallback'', ''sortedIndex'', ''indexOf'', ''getIndexOf'', ''difference''],
      [''support''],
      [''objectTypes'', ''reNative'', ''keyPrefix'', ''indicatorObject'', ''largeArraySize'',
       ''eachIteratorOptions'', ''forOwnIteratorOptions'', ''objectPool'', ''maxPoolSize'',
       ''arrayPool''])
   \<and> map_of (funcDepMap st_difference) ''getIndexOf'' = Some [''baseIndexOf'', ''indexOf'']
   \<and> ''indexOf'' \<in> set (fst (build_expand (\<lambda>_. True) st_difference))"
proof -
  note e = expand_difference[of "\<lambda>_. True"]
  have m: "map_of (funcDepMap st_difference) ''getIndexOf'' = Some [''baseIndexOf'', ''indexOf'']"
    by (simp add: st_difference_def map_of_default funcDependencyMap_lookup)
  have "''indexOf'' \<in> set (fst (build_expand (\<lambda>_. True) st_difference))"
    using closure_completeness[OF e _ m, of "''indexOf''"] by (simp add: e)
  with e m show ?thesis by simp
qed

subsection \<open>Exclusion\<close>

text \<open>
  Claim C2 (exclusion cascade), as the code has it. Every name \<open>X\<close> of the
  \<^verbatim>\<open>minus\<close>/\<^verbatim>\<open>exclude\<close> directive, and every name \<open>Y\<close> that depends on \<open>X\<close> directly or
  transitively in the function map, is absent from the closure \<^verbatim>\<open>buildFuncs\<close> that
  \<^verbatim>\<open>getDependencies\<close> computes from the subtracted names: the subtraction removes \<open>X\<close> and
  all its dependants before the closure is taken, so the closure cannot reach them.
\<close>

theorem exclusion_cascade_closure:
  assumes X: "X \<in> set (minusFuncs st)"
    and Y: "Y = X \<or> (Y, X) \<in> (edges (funcDepMap st))\<^sup>+"
  shows "Y \<notin> set (build_buildFuncs isFunc st)"
proof
  assume in_bf: "Y \<in> set (build_buildFuncs isFunc st)"
  from X have ne: "minusFuncs st \<noteq> []" by auto
  from build_plusMinus_minus_Some[OF ne] obtain r where
    r: "build_plusMinus st (build_removeNone (build_includeResult isFunc st)) = Some r" by blast
  from set_build_plusMinus_minus[OF ne r]
  have disj: "set r \<inter> (set (minusFuncs st) \<union> set (getDependants (Names (minusFuncs st)) (funcDepMap st))) = {}" .
  from in_bf r have "Y \<in> (edges (funcDepMap st))\<^sup>* `` set r"
    by (simp add: build_buildFuncs_def set_getDependencies_Names)
  then obtain Z where Z: "Z \<in> set r" "(Z, Y) \<in> (edges (funcDepMap st))\<^sup>*" by auto
  from Y Z(2) have "(Z, X) \<in> (edges (funcDepMap st))\<^sup>*" by auto
  then have "Z = X \<or> (Z, X) \<in> (edges (funcDepMap st))\<^sup>+"
    by (auto simp: rtrancl_eq_or_trancl)
  then show False
  proof
    assume "Z = X"
    with X Z(1) disj show False by auto
  next
    assume "(Z, X) \<in> (edges (funcDepMap st))\<^sup>+"
    then have "(Z, X) \<in> (entryEdges (funcDepMap st))\<^sup>+"
      using trancl_mono[OF _ edges_subset_entryEdges] by blast
    from getDependants_complete[OF X this] Z(1) disj show False by auto
  qed
qed

theorem exclusion_cascade_closure_witness:
  "''invert'' \<in> set (minusFuncs st_unescape)
   \<and> (''htmlUnescapes'', ''invert'') \<in> (edges (funcDepMap st_unescape))\<^sup>+
   \<and> ''invert'' \<notin> set (build_buildFuncs (\<lambda>_. True) st_unescape)
   \<and> ''htmlUnescapes'' \<notin> set (build_buildFuncs (\<lambda>_. True) st_unescape)"
proof -
  have x: "''invert'' \<in> set (minusFuncs st_unescape)"
    by (simp add: st_unescape_def)
  have "(''htmlUnescapes'', ''invert'') \<in> edges (funcDepMap st_unescape)"
    by (simp add: edges_iff depsOf_def st_unescape_def map_of_default funcDependencyMap_lookup)
  then have y: "(''htmlUnescapes'', ''invert'') \<in> (edges (funcDepMap st_unescape))\<^sup>+"
    by (rule r_into_trancl)
  from x y exclusion_cascade_closure[OF x, of "''invert''" "\<lambda>_. True"]
    exclusion_cascade_closure[OF x, of "''htmlUnescapes''" "\<lambda>_. True"]
  show ?thesis by simp
qed

text \<open>
  Claim C2 as stated speaks of the resolved build set, which is \<^verbatim>\<open>buildFuncs\<close> after the
  property and variable expansion. There it fails: for
  \<^verbatim>\<open>lodash include=unescape minus=invert\<close> the closure holds \<^verbatim>\<open>unescapeHtmlChar\<close>, whose
  variable \<^verbatim>\<open>htmlUnescapes\<close> depends on \<^verbatim>\<open>invert\<close>, and the expansion adds \<^verbatim>\<open>invert\<close> back.
\<close>

theorem exclusion_cascade_counterexample:
  "''invert'' \<in> set (minusFuncs st_unescape)
   \<and> ''invert'' \<in> set (fst (build_expand (\<lambda>_. True) st_unescape))"
proof -
  have "''invert'' \<in> set (minusFuncs st_unescape)"
    by (simp add: st_unescape_def)
  moreover have "''invert'' \<in> set (fst (build_expand (\<lambda>_. True) st_unescape))"
    by (simp add: expand_unescape)
  ultimately show ?thesis by simp
qed

subsection \<open>The \<^verbatim>\<open>difference\<close> scenario\<close>

text \<open>
  Claim C3. For \<^verbatim>\<open>lodash include=difference\<close> in the default environment the kept functions
  together with the included variables contain \<^verbatim>\<open>difference\<close>, \<^verbatim>\<open>baseFlatten\<close>,
  \<^verbatim>\<open>cacheIndexOf\<close>, \<^verbatim>\<open>createCache\<close>, \<^verbatim>\<open>getIndexOf\<close>, \<^verbatim>\<open>releaseObject\<close>, \<^verbatim>\<open>baseIndexOf\<close>,
  \<^verbatim>\<open>indexOf\<close>, \<^verbatim>\<open>sortedIndex\<close>, \<^verbatim>\<open>largeArraySize\<close> and \<^verbatim>\<open>keyPrefix\<close>, and neither they nor
  the included properties contain \<^verbatim>\<open>template\<close>.
\<close>

theorem difference_scenario:
  "(case build_expand isFunc st_difference of
      (buildFuncs, props, vars) \<Rightarrow>
        set [''difference'', ''baseFlatten'', ''cacheIndexOf'', ''createCache'', ''getIndexOf'',
             ''releaseObject'', ''baseIndexOf'', ''indexOf'', ''sortedIndex'', ''largeArraySize'',
             ''keyPrefix''] \<subseteq> set (buildFuncs @ vars)
        \<and> ''template'' \<notin> set (buildFuncs @ props @ vars))"
  by (simp add: expand_difference)

subsection \<open>The \<^verbatim>\<open>none\<close> entry\<close>

lemma join_eq_none: "join r = ''none'' \<longleftrightarrow> r = [''none'']"
proof (cases r)
  case Nil
  then show ?thesis by simp
next
  case (Cons x xs)
  note r = this
  show ?thesis
  proof (cases xs)
    case Nil
    with r show ?thesis by simp
  next
    case (Cons y ys)
    have comma: "CHR '','' \<in> set (x @ '','' @ join (y # ys))" by simp
    have "x @ '','' @ join (y # ys) \<noteq> ''none''"
    proof
      assume "x @ '','' @ join (y # ys) = ''none''"
      with comma have "CHR '','' \<in> set ''none''" by (simp only:)
      then show False by simp
    qed
    moreover have "join r = x @ '','' @ join (y # ys)" by (simp add: r Cons)
    ultimately have "join r \<noteq> ''none''" by metis
    moreover have "r \<noteq> [''none'']" by (simp add: r Cons)
    ultimately show ?thesis by simp
  qed
qed

lemma build_removeNone_Some: "build_removeNone (Some r) = Some (filter (\<lambda>n. n \<noteq> ''none'') r)"
proof (cases "join r = ''none''")
  case True
  then have "r = [''none'']" by (simp add: join_eq_none)
  then show ?thesis by (simp add: build_removeNone_def)
next
  case False
  then show ?thesis by (simp add: build_removeNone_def pull_def)
qed

text \<open>
  Claim C4 (the \<^verbatim>\<open>none\<close> sentinel), as the code has it. When the explicit include list
  contains \<^verbatim>\<open>none\<close>, the step before \<^verbatim>\<open>plus\<close> and \<^verbatim>\<open>minus\<close> removes the \<^verbatim>\<open>none\<close> entry
  and keeps every other included name; the result is empty when the include list is
  exactly \<^verbatim>\<open>['none']\<close>, and then \<^verbatim>\<open>buildFuncs\<close> is the closure of the \<^verbatim>\<open>plus\<close> names
  alone when nothing is subtracted.
\<close>

theorem none_sentinel:
  assumes "''none'' \<in> set (includeFuncs st)"
  shows "build_removeNone (build_includeResult isFunc st)
           = Some (filter (\<lambda>n. n \<noteq> ''none'') (includeFuncs st))
     \<and> (includeFuncs st = [''none''] \<longrightarrow>
          build_removeNone (build_includeResult isFunc st) = Some []
          \<and> (minusFuncs st = [] \<and> \<not> isModularize st \<longrightarrow>
               set (build_buildFuncs isFunc st)
                 = (edges (funcDepMap st))\<^sup>* `` set (plusFuncs st)))"
proof -
  from assms have ne: "includeFuncs st \<noteq> []" by auto
  then have inc: "build_includeResult isFunc st = Some (includeFuncs st)"
    by (simp add: build_includeResult_def Let_def)
  have a: "build_removeNone (build_includeResult isFunc st)
           = Some (filter (\<lambda>n. n \<noteq> ''none'') (includeFuncs st))"
    by (simp add: inc build_removeNone_Some)
  have b: "build_removeNone (build_includeResult isFunc st) = Some []"
    if "includeFuncs st = [''none'']"
    using that by (simp add: a)
  have c: "set (build_buildFuncs isFunc st) = (edges (funcDepMap st))\<^sup>* `` set (plusFuncs st)"
    if "includeFuncs st = [''none'']" "minusFuncs st = []" "\<not> isModularize st"
  proof (cases "plusFuncs st = []")
    case True
    with that b[OF that(1)] show ?thesis
      by (simp add: build_buildFuncs_def build_plusMinus_def set_getDependencies_Names)
  next
    case False
    with that b[OF that(1)] show ?thesis
      by (simp add: build_buildFuncs_def build_plusMinus_def union_arr_def set_getDependencies_Names)
  qed
  from a b c show ?thesis by blast
qed

definition st_none_map :: buildState where
  "st_none_map = \<lparr>includeFuncs = [''none'', ''map''], includeProps = [], includeVars = [],
     minusFuncs = [], plusFuncs = [], isBackbone = False, isUnderscore = False,
     isModularize = False, funcDepMap = build_defaultFuncDepMap [],
     propDepMap = propDependencyMap, varDepMap = varDependencyMap\<rparr>"

theorem none_sentinel_witness:
  "''none'' \<in> set (includeFuncs st_none_map)
   \<and> build_removeNone (build_includeResult (\<lambda>_. True) st_none_map) = Some [''map'']
   \<and> build_removeNone (build_includeResult (\<lambda>_. True) (st_none_map\<lparr>includeFuncs := [''none'']\<rparr>)) = Some []
   \<and> set (build_buildFuncs (\<lambda>_. True) (st_none_map\<lparr>includeFuncs := [''none''], plusFuncs := [''uniqueId'']\<rparr>))
       = (edges (build_defaultFuncDepMap []))\<^sup>* `` {''uniqueId''}"
proof -
  have h: "''none'' \<in> set (includeFuncs st_none_map)"
    "''none'' \<in> set (includeFuncs (st_none_map\<lparr>includeFuncs := [''none'']\<rparr>))"
    "''none'' \<in> set (includeFuncs (st_none_map\<lparr>includeFuncs := [''none''], plusFuncs := [''uniqueId'']\<rparr>))"
    by (simp_all add: st_none_map_def)
  from none_sentinel[OF h(1), of "\<lambda>_. True"] none_sentinel[OF h(2), of "\<lambda>_. True"]
    none_sentinel[OF h(3), of "\<lambda>_. True"] h(1)
  show ?thesis by (simp add: st_none_map_def)
qed

text \<open>
  Claim C4 as stated says that a requested set containing \<^verbatim>\<open>none\<close> clears the whole result.
  For \<^verbatim>\<open>lodash include=none,map\<close> the array \<^verbatim>\<open>['none', 'map']\<close> is not equal to the string
  \<^verbatim>\<open>'none'\<close>, the \<^verbatim>\<open>else\<close> branch pulls the \<^verbatim>\<open>none\<close> entry only, and \<^verbatim>\<open>map\<close> stays.
\<close>

theorem none_sentinel_counterexample:
  "''none'' \<in> set (includeFuncs st_none_map)
   \<and> build_removeNone (build_includeResult (\<lambda>_. True) st_none_map) \<noteq> Some []"
  by (simp add: st_none_map_def build_includeResult_def build_removeNone_Some)

subsection \<open>Termination on cyclic maps\<close>

text \<open>
  Claim C5. For every dependency map, cyclic or not, and every name the non-shallow
  \<^verbatim>\<open>getDependencies(name, depMap)\<close> terminates (its recursion is well-founded at that
  argument) and has no error result; it returns exactly the names reachable from \<open>name\<close>
  by one or more edges of the map; and a name that is already on the stack is skipped
  without being expanded again.
\<close>

theorem getDependencies_cycle_tolerant:
  "getDependencies_stack_getDependencies_each_dom (Inl (Name name, depMap, False, []))
   \<and> set (getDependencies (Name name) depMap False) = (edges depMap)\<^sup>+ `` {name}
   \<and> (otherName \<in> set stack \<longrightarrow>
        getDependencies_each (otherName # rest) depMap False result stack
          = getDependencies_each rest depMap False result stack)"
  using getDependencies_dom_all by (simp add: set_getDependencies_Name)

theorem getDependencies_cycle_tolerant_witness:
  "''a'' \<in> set [''b'', ''a'']
   \<and> getDependencies_each [''a''] [(''a'', [''b'']), (''b'', [''a''])] False [] [''b'', ''a'']
        = ([], [''b'', ''a''])
   \<and> getDependencies (Name ''a'') [(''a'', [''b'']), (''b'', [''a''])] False = [''a'', ''b'']
   \<and> (edges [(''a'', [''b'']), (''b'', [''a''])])\<^sup>+ `` {''a''} = {''a'', ''b''}"
proof -
  let ?m = "[(''a'', [''b'']), (''b'', [''a''])]"
  have v: "getDependencies (Name ''a'') ?m False = [''a'', ''b'']"
    by code_simp
  from getDependencies_cycle_tolerant[of "''a''" ?m "''a''" "[''b'', ''a'']" "[]" "[]"] v
  show ?thesis by auto
qed

subsection \<open>Alias resolution\<close>

text \<open>
  Claim C6 (idempotence of alias resolution). For every name and every dependency map,
  resolving the resolved name again changes nothing, and a name that is tracked by the
  dependency map resolves to itself.
\<close>

theorem getRealName_idempotent:
  "getRealName (getRealName n depMap) depMap = getRealName n depMap
   \<and> (hasOwnProperty (case depMap of Some m \<Rightarrow> m | None \<Rightarrow> funcDependencyMap) n
        \<longrightarrow> getRealName n depMap = n)"
proof -
  let ?dm = "case depMap of Some m \<Rightarrow> m | None \<Rightarrow> funcDependencyMap"
  have tracked: "hasOwnProperty ?dm n \<Longrightarrow> getRealName n depMap = n"
    by (simp add: getRealName_def)
  have idem: "getRealName (getRealName n depMap) depMap = getRealName n depMap"
  proof (cases "\<not> hasOwnProperty ?dm n \<and> map_of aliasToRealMap n \<noteq> None")
    case False
    then have "getRealName n depMap = n"
      by (auto simp: getRealName_def)
    then show ?thesis by simp
  next
    case True
    then obtain r where r: "map_of aliasToRealMap n = Some r" by auto
    from alias_targets_not_aliases[OF r]
    have nr: "map_of aliasToRealMap r = None" "r \<noteq> []" by auto
    from True r nr have "getRealName n depMap = r"
      by (simp add: getRealName_def)
    moreover have "getRealName r depMap = r"
      using nr by (simp add: getRealName_def)
    ultimately show ?thesis by simp
  qed
  from tracked idem show ?thesis by blast
qed

theorem getRealName_idempotent_witness:
  "hasOwnProperty funcDependencyMap ''map'' \<and> getRealName ''map'' None = ''map''
   \<and> getRealName ''collect'' None = ''map''
   \<and> getRealName (getRealName ''collect'' None) None = getRealName ''collect'' None"
proof -
  have h: "hasOwnProperty funcDependencyMap ''map''"
    by code_simp
  have c: "getRealName ''collect'' None = ''map''"
    by code_simp
  from h c getRealName_idempotent[of "''map''" None] getRealName_idempotent[of "''collect''" None]
  show ?thesis by simp
qed

text \<open>
  Claim C7 (when alias resolution leaves the name unchanged), as the code has it. The name
  is returned unchanged when it is not a known alias or when the name itself is a tracked
  identifier of the dependency map; otherwise the alias's real name is returned.
\<close>

theorem getRealName_unchanged:
  "getRealName n depMap =
     (case map_of aliasToRealMap n of
        None \<Rightarrow> n
      | Some real \<Rightarrow>
          if hasOwnProperty (case depMap of Some m \<Rightarrow> m | None \<Rightarrow> funcDependencyMap) n
          then n else real)"
  using alias_targets_not_aliases[of n]
  by (auto simp: getRealName_def split: option.splits)

theorem getRealName_unchanged_witness:
  "getRealName ''each'' None = ''forEach''
   \<and> getRealName ''forEach'' None = ''forEach''
   \<and> getRealName ''findWhere'' None = ''findWhere''
   \<and> getRealName ''findWhere'' (Some []) = ''find''"
proof -
  have "map_of aliasToRealMap ''each'' = Some ''forEach''"
    "map_of aliasToRealMap ''forEach'' = None"
    "map_of aliasToRealMap ''findWhere'' = Some ''find''"
    "\<not> hasOwnProperty funcDependencyMap ''each''"
    "hasOwnProperty funcDependencyMap ''findWhere''"
    "\<not> hasOwnProperty [] ''findWhere''"
    by code_simp+
  with getRealName_unchanged[of "''each''" None] getRealName_unchanged[of "''forEach''" None]
    getRealName_unchanged[of "''findWhere''" None] getRealName_unchanged[of "''findWhere''" "Some []"]
  show ?thesis by simp
qed

text \<open>
  Claim C7 as stated makes the second condition "the alias target is not tracked". With the
  canonical map \<^verbatim>\<open>findWhere\<close> is an alias of \<^verbatim>\<open>find\<close>, \<^verbatim>\<open>find\<close> is tracked, and yet
  \<^verbatim>\<open>findWhere\<close> is returned unchanged because \<^verbatim>\<open>findWhere\<close> itself is a key of the map.
\<close>

theorem getRealName_spec_counterexample:
  "map_of aliasToRealMap ''findWhere'' = Some ''find''
   \<and> hasOwnProperty funcDependencyMap ''find''
   \<and> getRealName ''findWhere'' None = ''findWhere''
   \<and> getRealName_spec ''findWhere'' None = ''find''"
  by code_simp

subsection \<open>Invalid directives\<close>




end
